theory Spec2Isabelle
  imports Complex_Main "HOL-Library.AList"
begin

section \<open>Python primitives used by the notebook\<close>

text \<open>
  The notebook \<^verbatim>\<open>parse_hurdat.ipynb\<close> is Python. Its functions use a handful of built-ins
  (\<^verbatim>\<open>str.strip\<close>, slicing, \<^verbatim>\<open>str.startswith\<close>, \<^verbatim>\<open>int\<close>, \<^verbatim>\<open>float\<close>, \<^verbatim>\<open>str\<close>), which are
  modelled first. A Python \<^verbatim>\<open>str\<close> is a \<^typ>\<open>string\<close>, one \<^typ>\<open>char\<close> per code point; the
  text is taken to lie in the range of code points below 256.
\<close>

subsection \<open>Whitespace, slices, prefixes\<close>

text \<open>The code points below 256 for which \<^verbatim>\<open>str.isspace\<close> holds.\<close>

definition whitespace :: "char list" where
  "whitespace = [CHR 0x09, CHR 0x0A, CHR 0x0B, CHR 0x0C, CHR 0x0D,
                 CHR 0x1C, CHR 0x1D, CHR 0x1E, CHR 0x1F, CHR 0x20, CHR 0x85, CHR 0xA0]"

definition isspace :: "char \<Rightarrow> bool" where
  "isspace c = (c \<in> set whitespace)"

text \<open>\<^verbatim>\<open>s.strip()\<close>: leading and trailing whitespace removed.\<close>

definition lstrip :: "string \<Rightarrow> string" where
  "lstrip s = dropWhile isspace s"

definition rstrip :: "string \<Rightarrow> string" where
  "rstrip s = rev (dropWhile isspace (rev s))"

definition strip :: "string \<Rightarrow> string" where
  "strip s = lstrip (rstrip s)"

text \<open>
  \<^verbatim>\<open>s[a:b]\<close> for constant bounds \<open>0 \<le> a \<le> b\<close>, the only slices of the notebook. Python
  clips a slice to the string: out of range it is shorter or empty, and never raises.
\<close>

definition slice :: "nat \<Rightarrow> nat \<Rightarrow> string \<Rightarrow> string" where
  "slice a b s = take (b - a) (drop a s)"

definition startswith :: "string \<Rightarrow> string \<Rightarrow> bool" where
  "startswith s p = (take (length p) s = p)"

subsection \<open>Integer and float literals\<close>

definition isdigit :: "char \<Rightarrow> bool" where
  "isdigit c = (c \<in> set ''0123456789'')"

definition digit_val :: "char \<Rightarrow> nat" where
  "digit_val c = of_char c - 48"

definition digit_char :: "nat \<Rightarrow> char" where
  "digit_char n = char_of (n + 48)"

text \<open>
  The grammar's \<^verbatim>\<open>digitpart ::= digit (["_"] digit)*\<close>: the digits of the whole string,
  underscores removed, or \<open>None\<close> when the string is not a digitpart.
\<close>

fun digitpart :: "string \<Rightarrow> string option" where
  "digitpart [] = None"
| "digitpart [c] = (if isdigit c then Some [c] else None)"
| "digitpart (c # d # r) =
     (if \<not> isdigit c then None
      else if d = CHR ''_'' then map_option ((#) c) (digitpart r)
      else map_option ((#) c) (digitpart (d # r)))"

definition digits_val :: "string \<Rightarrow> nat" where
  "digits_val ds = foldl (\<lambda>a c. 10 * a + digit_val c) 0 ds"

datatype pyerror = ValueError | IndexError | KeyError | OverflowError | AttributeError | Unmodelled

text \<open>
  \<^verbatim>\<open>int(s)\<close> on a string, base 10: surrounding whitespace is ignored, then an optional
  sign and a digitpart (leading zeros allowed). Anything else raises ValueError, here \<open>None\<close>.
\<close>

definition int_of_str :: "string \<Rightarrow> int option" where
  "int_of_str s =
     (case strip s of
        [] \<Rightarrow> None
      | c # r \<Rightarrow>
          if c = CHR ''-'' then map_option (\<lambda>ds. - int (digits_val ds)) (digitpart r)
          else if c = CHR ''+'' then map_option (\<lambda>ds. int (digits_val ds)) (digitpart r)
          else map_option (\<lambda>ds. int (digits_val ds)) (digitpart (c # r)))"

text \<open>\<^verbatim>\<open>str(n)\<close> on an integer.\<close>

fun str_nat :: "nat \<Rightarrow> string" where
  "str_nat n = (if n < 10 then [digit_char n] else str_nat (n div 10) @ [digit_char (n mod 10)])"

declare str_nat.simps [simp del]

definition str_int :: "int \<Rightarrow> string" where
  "str_int i = (if i < 0 then CHR ''-'' # str_nat (nat (- i)) else str_nat (nat i))"

text \<open>
  A Python float is kept as the exact rational value of the literal it was read from, or
  one of the three special values; rounding to binary64 and the sign of zero are not
  modelled.
\<close>

datatype pyfloat = Finite rat | PosInf | NegInf | NaN

definition lower :: "char \<Rightarrow> char" where
  "lower c = (if c \<in> set ''ABCDEFGHIJKLMNOPQRSTUVWXYZ'' then char_of (of_char c + (32::nat)) else c)"

text \<open>An optional digitpart: the empty string counts as no digits.\<close>

definition opt_digitpart :: "string \<Rightarrow> string option" where
  "opt_digitpart s = (if s = [] then Some [] else digitpart s)"

text \<open>
  \<^verbatim>\<open>number ::= [digitpart] "." digitpart | digitpart ["."]\<close>: the value of the mantissa.
\<close>

definition number :: "string \<Rightarrow> rat option" where
  "number s =
     (let ip = takeWhile (\<lambda>c. c \<noteq> CHR ''.'') s; rest = dropWhile (\<lambda>c. c \<noteq> CHR ''.'') s
      in case rest of
           [] \<Rightarrow> map_option (\<lambda>ds. of_nat (digits_val ds)) (digitpart ip)
         | _ # fp \<Rightarrow>
             if ip = [] \<and> fp = [] then None
             else (case (opt_digitpart ip, opt_digitpart fp) of
                     (Some ids, Some fds) \<Rightarrow>
                       Some (of_nat (digits_val ids) + of_nat (digits_val fds) / 10 ^ length fds)
                   | _ \<Rightarrow> None))"

text \<open>\<^verbatim>\<open>exponent ::= ("e" | "E") [sign] digitpart\<close>: the text after the letter.\<close>

definition exponent :: "string \<Rightarrow> int option" where
  "exponent s =
     (case s of
        [] \<Rightarrow> None
      | c # r \<Rightarrow>
          if c = CHR ''-'' then map_option (\<lambda>ds. - int (digits_val ds)) (digitpart r)
          else if c = CHR ''+'' then map_option (\<lambda>ds. int (digits_val ds)) (digitpart r)
          else map_option (\<lambda>ds. int (digits_val ds)) (digitpart (c # r)))"

definition scale10 :: "rat \<Rightarrow> int \<Rightarrow> rat" where
  "scale10 m e = (if 0 \<le> e then m * 10 ^ nat e else m / 10 ^ nat (- e))"

definition floatnumber :: "string \<Rightarrow> rat option" where
  "floatnumber s =
     (let isE = (\<lambda>c. c = CHR ''e'' \<or> c = CHR ''E'');
          mant = takeWhile (\<lambda>c. \<not> isE c) s; rest = dropWhile (\<lambda>c. \<not> isE c) s
      in case rest of
           [] \<Rightarrow> number mant
         | _ # ex \<Rightarrow>
             (case (number mant, exponent ex) of
                (Some m, Some e) \<Rightarrow> Some (scale10 m e)
              | _ \<Rightarrow> None))"

definition absfloatvalue :: "string \<Rightarrow> pyfloat option" where
  "absfloatvalue s =
     (if map lower s = ''inf'' \<or> map lower s = ''infinity'' then Some PosInf
      else if map lower s = ''nan'' then Some NaN
      else map_option Finite (floatnumber s))"

definition fneg :: "pyfloat \<Rightarrow> pyfloat" where
  "fneg f = (case f of Finite r \<Rightarrow> Finite (- r) | PosInf \<Rightarrow> NegInf | NegInf \<Rightarrow> PosInf | NaN \<Rightarrow> NaN)"

text \<open>
  \<^verbatim>\<open>float(s)\<close> on a string: surrounding whitespace is ignored, then
  \<^verbatim>\<open>[sign] (floatnumber | "inf" | "infinity" | "nan")\<close>, the words in any case. Anything else
  raises ValueError, here \<open>None\<close>.
\<close>

definition float_of_str :: "string \<Rightarrow> pyfloat option" where
  "float_of_str s =
     (case strip s of
        [] \<Rightarrow> None
      | c # r \<Rightarrow>
          if c = CHR ''-'' then map_option fneg (absfloatvalue r)
          else if c = CHR ''+'' then absfloatvalue r
          else absfloatvalue (c # r))"

text \<open>\<^verbatim>\<open>f * k\<close> for a float \<open>f\<close> and an integer \<open>k\<close>.\<close>

definition fmul_int :: "pyfloat \<Rightarrow> int \<Rightarrow> pyfloat" where
  "fmul_int f k =
     (case f of
        Finite r \<Rightarrow> Finite (r * of_int k)
      | NaN \<Rightarrow> NaN
      | PosInf \<Rightarrow> (if 0 < k then PosInf else if k < 0 then NegInf else NaN)
      | NegInf \<Rightarrow> (if 0 < k then NegInf else if k < 0 then PosInf else NaN))"

section \<open>Values and dictionaries\<close>

text \<open>
  The dictionaries of the notebook hold strings, integers (\<^verbatim>\<open>Entries\<close> after conversion)
  and floats (\<^verbatim>\<open>Latitude\<close>, \<^verbatim>\<open>Longitude\<close> after conversion). A dictionary is an
  association list in insertion order; assigning to a key replaces the value in place or
  appends the key, as \<^const>\<open>AList.update\<close> does.
\<close>

datatype pyval = VStr string | VInt int | VFlt pyfloat

type_synonym pydict = "(string \<times> pyval) list"

text \<open>\<^verbatim>\<open>d[k]\<close>: KeyError when the key is absent.\<close>

definition getitem :: "pydict \<Rightarrow> string \<Rightarrow> pyerror + pyval" where
  "getitem d k = (case map_of d k of None \<Rightarrow> Inl KeyError | Some v \<Rightarrow> Inr v)"

text \<open>\<^verbatim>\<open>{**a, **b}\<close>: the entries of \<open>a\<close>, then those of \<open>b\<close> assigned in order.\<close>

definition dict_merge :: "pydict \<Rightarrow> pydict \<Rightarrow> pydict" where
  "dict_merge a b = foldl (\<lambda>d (k, v). AList.update k v d) a b"

text \<open>\<^verbatim>\<open>int(v)\<close> and \<^verbatim>\<open>float(v)\<close> on a value of any of the three kinds.\<close>

definition py_int :: "pyval \<Rightarrow> pyerror + int" where
  "py_int v =
     (case v of
        VStr s \<Rightarrow> (case int_of_str s of None \<Rightarrow> Inl ValueError | Some n \<Rightarrow> Inr n)
      | VInt n \<Rightarrow> Inr n
      | VFlt f \<Rightarrow>
          (case f of
             Finite r \<Rightarrow> Inr (if 0 \<le> r then \<lfloor>r\<rfloor> else \<lceil>r\<rceil>)
           | NaN \<Rightarrow> Inl ValueError
           | _ \<Rightarrow> Inl OverflowError))"

definition py_float :: "pyval \<Rightarrow> pyerror + pyfloat" where
  "py_float v =
     (case v of
        VStr s \<Rightarrow> (case float_of_str s of None \<Rightarrow> Inl ValueError | Some f \<Rightarrow> Inr f)
      | VInt n \<Rightarrow> Inr (Finite (of_int n))
      | VFlt f \<Rightarrow> Inr f)"

section \<open>The line parsers\<close>

text \<open>
  Both parsers are a dictionary literal of \<^verbatim>\<open>line[a:b].strip()\<close> entries. The tables
  below list key, start and end of every entry, in the order of the source.
\<close>

definition header_fields :: "(string \<times> nat \<times> nat) list" where
  "header_fields =
     [(''Basin'', 0, 2), (''CycloneID'', 2, 4), (''Year'', 4, 8), (''Name'', 18, 28),
      (''Entries'', 33, 36)]"

definition data_fields :: "(string \<times> nat \<times> nat) list" where
  "data_fields =
     [(''Year'', 0, 4), (''Month'', 4, 6), (''Day'', 6, 8), (''Hours'', 10, 12),
      (''Minutes'', 12, 14), (''RecordID'', 16, 17), (''Status'', 19, 21),
      (''Latitude'', 23, 27), (''LatHemisphere'', 27, 28), (''Longitude'', 30, 35),
      (''LonHemisphere'', 35, 36), (''MaxWind'', 38, 41), (''MinPressure'', 43, 47),
      (''34NE'', 49, 53), (''34SE'', 55, 59), (''34SW'', 61, 65), (''34NW'', 67, 71),
      (''50NE'', 73, 77), (''50SE'', 79, 83), (''50SW'', 85, 89), (''50NW'', 91, 95),
      (''64NE'', 97, 101), (''64SE'', 103, 107), (''64SW'', 109, 113), (''64NW'', 115, 119),
      (''RadiusMaxWind'', 121, 125)]"

definition field_entry :: "string \<Rightarrow> string \<times> nat \<times> nat \<Rightarrow> string \<times> pyval" where
  "field_entry line f = (case f of (k, a, b) \<Rightarrow> (k, VStr (strip (slice a b line))))"

definition parse_header_line :: "string \<Rightarrow> pydict" where
  "parse_header_line line = map (field_entry line) header_fields"

definition parse_data_line :: "string \<Rightarrow> pydict" where
  "parse_data_line line = map (field_entry line) data_fields"

section \<open>The coordinate converter\<close>

text \<open>
  \<^verbatim>\<open>lat = float(lat) * (1 if lat_hem == 'N' else -1)\<close>, and the same for the longitude
  with \<^verbatim>\<open>'E'\<close>. The only failure is the ValueError of \<^verbatim>\<open>float\<close>.
\<close>

definition convert_lat_lon :: "pyval \<Rightarrow> pyval \<Rightarrow> pyval \<Rightarrow> pyval \<Rightarrow> pyerror + pyfloat \<times> pyfloat" where
  "convert_lat_lon lat lat_hem lon lon_hem =
     (case py_float lat of
        Inl e \<Rightarrow> Inl e
      | Inr a \<Rightarrow>
          (case py_float lon of
             Inl e \<Rightarrow> Inl e
           | Inr b \<Rightarrow>
               Inr (fmul_int a (if lat_hem = VStr ''N'' then 1 else - 1),
                    fmul_int b (if lon_hem = VStr ''E'' then 1 else - 1))))"

section \<open>The record assembler\<close>

text \<open>
  The header branch of \<^verbatim>\<open>parse_hurdat2\<close>: parse the line, then
  \<^verbatim>\<open>header['Entries'] = int(header['Entries'])\<close>.
\<close>

definition read_header :: "string \<Rightarrow> pyerror + pydict \<times> int" where
  "read_header line =
     (let header = parse_header_line line
      in case getitem header ''Entries'' of
           Inl e \<Rightarrow> Inl e
         | Inr v \<Rightarrow>
             (case py_int v of
                Inl e \<Rightarrow> Inl e
              | Inr n \<Rightarrow> Inr (AList.update ''Entries'' (VInt n) header, n)))"

text \<open>
  The body of the \<^verbatim>\<open>for\<close> loop, given the raw line \<^verbatim>\<open>lines[i]\<close>: strip, parse, convert the
  coordinates, store them, merge with the header.
\<close>

definition combine :: "pydict \<Rightarrow> string \<Rightarrow> pyerror + pydict" where
  "combine header raw =
     (let data_line = strip raw; parsed_data = parse_data_line data_line
      in case getitem parsed_data ''Latitude'' of Inl e \<Rightarrow> Inl e | Inr la \<Rightarrow>
         (case getitem parsed_data ''LatHemisphere'' of Inl e \<Rightarrow> Inl e | Inr lah \<Rightarrow>
         (case getitem parsed_data ''Longitude'' of Inl e \<Rightarrow> Inl e | Inr lo \<Rightarrow>
         (case getitem parsed_data ''LonHemisphere'' of Inl e \<Rightarrow> Inl e | Inr loh \<Rightarrow>
         (case convert_lat_lon la lah lo loh of
            Inl e \<Rightarrow> Inl e
          | Inr (lat, lon) \<Rightarrow>
              Inr (dict_merge header
                    (AList.update ''Longitude'' (VFlt lon)
                      (AList.update ''Latitude'' (VFlt lat) parsed_data))))))))"

text \<open>
  \<^verbatim>\<open>for _ in range(header['Entries'])\<close>, with the iterations left as a natural number
  (\<^verbatim>\<open>range\<close> of a negative number is empty). \<^verbatim>\<open>lines[i]\<close> raises IndexError past the end.
\<close>

fun for_loop :: "pydict \<Rightarrow> string list \<Rightarrow> nat \<Rightarrow> nat \<Rightarrow> pydict list \<Rightarrow> pyerror + nat \<times> pydict list" where
  "for_loop header lines 0 i data = Inr (i, data)"
| "for_loop header lines (Suc k) i data =
     (if i < length lines
      then (case combine header (lines ! i) of
              Inl e \<Rightarrow> Inl e
            | Inr combined_dict \<Rightarrow> for_loop header lines k (Suc i) (data @ [combined_dict]))
      else Inl IndexError)"

lemma for_loop_index:
  "for_loop header lines k i data = Inr (j, data') \<Longrightarrow> j = i + k"
proof (induction k arbitrary: i data)
  case 0
  then show ?case by simp
next
  case (Suc k)
  from Suc.prems obtain c where "for_loop header lines k (Suc i) (data @ [c]) = Inr (j, data')"
    by (auto split: if_splits sum.splits)
  from Suc.IH [OF this] show ?case by simp
qed

text \<open>The \<^verbatim>\<open>while i < len(lines)\<close> loop.\<close>

function parse_loop :: "string list \<Rightarrow> nat \<Rightarrow> pydict list \<Rightarrow> pyerror + pydict list" where
  "parse_loop lines i data =
     (if i < length lines
      then (if startswith (strip (lines ! i)) ''AL''
            then (case read_header (strip (lines ! i)) of
                    Inl e \<Rightarrow> Inl e
                  | Inr (header, n) \<Rightarrow>
                      (case for_loop header lines (nat n) (Suc i) data of
                         Inl e \<Rightarrow> Inl e
                       | Inr (j, data') \<Rightarrow> parse_loop lines j data'))
            else parse_loop lines (Suc i) data)
      else Inr data)"
  by pat_completeness auto
termination
  by (relation "measure (\<lambda>(lines, i, data). length lines - i)")
     (auto dest!: for_loop_index)

declare parse_loop.simps [simp del]

text \<open>
  \<^verbatim>\<open>parse_hurdat2\<close> on the lines that \<^verbatim>\<open>readlines\<close> returned; the result is the list of
  rows of the data frame.
\<close>

definition parse_hurdat2 :: "string list \<Rightarrow> pyerror + pydict list" where
  "parse_hurdat2 lines = parse_loop lines 0 []"

section \<open>Data frames\<close>

text \<open>
  A data frame built from a list of dictionaries is that list of rows. Its columns are the
  keys that occur in some row; a cell whose row lacks the key is missing (NaN).
\<close>

definition columns :: "pydict list \<Rightarrow> string list" where
  "columns df = remdups (concat (map (map fst) df))"

definition cell :: "pydict \<Rightarrow> string \<Rightarrow> pyval" where
  "cell r c = (case map_of r c of None \<Rightarrow> VFlt NaN | Some v \<Rightarrow> v)"

text \<open>\<^verbatim>\<open>df[c]\<close>: the cells of one column.\<close>

definition column :: "string \<Rightarrow> pydict list \<Rightarrow> pyval list" where
  "column c df = map (\<lambda>r. cell r c) df"

text \<open>Apply a fallible function to every row, stopping at the first error.\<close>

fun traverse :: "('a \<Rightarrow> pyerror + 'b) \<Rightarrow> 'a list \<Rightarrow> pyerror + 'b list" where
  "traverse f [] = Inr []"
| "traverse f (x # xs) =
     (case f x of
        Inl e \<Rightarrow> Inl e
      | Inr y \<Rightarrow> (case traverse f xs of Inl e \<Rightarrow> Inl e | Inr ys \<Rightarrow> Inr (y # ys)))"

section \<open>The validator\<close>

definition group_cols :: "string list" where
  "group_cols = [''Basin'', ''CycloneID'', ''Year'', ''Name'']"

definition row_key :: "pydict \<Rightarrow> pyval list" where
  "row_key r = map (cell r) group_cols"

text \<open>
  \<^verbatim>\<open>df.groupby([...]).size()\<close>: every distinct key with the number of its rows. Rows with
  a missing key part belong to no group. (pandas sorts the groups; the validator only
  asks whether a mismatch exists, so the order is left as first occurrence.)
\<close>

definition grouped :: "pydict list \<Rightarrow> (pyval list \<times> nat) list" where
  "grouped df =
     (let ks = filter (\<lambda>k. VFlt NaN \<notin> set k) (map row_key df)
      in map (\<lambda>k. (k, count_list ks k)) (remdups ks))"

text \<open>\<^verbatim>\<open>df[['Basin', 'CycloneID', 'Entries', 'Year', 'Name']].drop_duplicates()\<close>\<close>

definition entries_table :: "pydict list \<Rightarrow> (pyval list \<times> pyval) list" where
  "entries_table df = remdups (map (\<lambda>r. (row_key r, cell r ''Entries'')) df)"

text \<open>
  The left merge on the four key columns: every group with each matching row of the
  table, or with a missing \<^verbatim>\<open>Entries\<close> when none matches.
\<close>

definition merged :: "pydict list \<Rightarrow> (pyval list \<times> nat \<times> pyval) list" where
  "merged df =
     concat (map (\<lambda>(k, n).
                    case filter (\<lambda>(k', e). k' = k) (entries_table df) of
                      [] \<Rightarrow> [(k, n, VFlt NaN)]
                    | ms \<Rightarrow> map (\<lambda>(k', e). (k, n, e)) ms)
                 (grouped df))"

text \<open>\<^verbatim>\<open>n_rows != Entries\<close> on one row of the merge.\<close>

definition ne_count :: "nat \<Rightarrow> pyval \<Rightarrow> bool" where
  "ne_count n e =
     (case e of
        VInt m \<Rightarrow> int n \<noteq> m
      | VFlt (Finite r) \<Rightarrow> of_nat n \<noteq> r
      | _ \<Rightarrow> True)"

definition mismatch :: "pydict list \<Rightarrow> (pyval list \<times> nat \<times> pyval) list" where
  "mismatch df = filter (\<lambda>(k, n, e). ne_count n e) (merged df)"

text \<open>
  \<^verbatim>\<open>test_entries_count\<close>: True when no row of the merge is a mismatch. Selecting a column
  the frame does not have raises KeyError.
\<close>

definition test_entries_count :: "pydict list \<Rightarrow> pyerror + bool" where
  "test_entries_count df =
     (if \<not> set (''Entries'' # group_cols) \<subseteq> set (columns df) then Inl KeyError
      else Inr (mismatch df = []))"

section \<open>Removing the single-valued columns\<close>

text \<open>
  pandas compares the cells of a column as Python values: an integer and the float of
  the same value are one value.
\<close>

definition canon :: "pyval \<Rightarrow> pyval" where
  "canon v = (case v of VInt n \<Rightarrow> VFlt (Finite (of_int n)) | _ \<Rightarrow> v)"

text \<open>\<^verbatim>\<open>df.nunique()\<close> for one column: the number of distinct values, missing cells left out.\<close>

definition nunique :: "pydict list \<Rightarrow> string \<Rightarrow> nat" where
  "nunique df c = length (remdups (map canon (filter (\<lambda>v. v \<noteq> VFlt NaN) (column c df))))"

text \<open>
  \<^verbatim>\<open>df = df.loc[:, df.nunique() > 1]\<close>: every row keeps the columns with more than one
  distinct value. The notebook runs this cell before the casts.
\<close>

definition drop_constant_columns :: "pydict list \<Rightarrow> pydict list" where
  "drop_constant_columns df =
     (let keep = filter (\<lambda>c. 1 < nunique df c) (columns df)
      in map (filter (\<lambda>kv. fst kv \<in> set keep)) df)"

section \<open>The type casts, the timestamp and the unique key\<close>

text \<open>
  The cell of the notebook that casts the columns, statement by statement. The three
  kinds of cast are \<^verbatim>\<open>astype('string')\<close>, \<^verbatim>\<open>astype(int)\<close> and
  \<^verbatim>\<open>pd.to_numeric(_, errors='coerce')\<close>.
\<close>

datatype cast = AsString | AsInt | ToNumeric

definition cast_table :: "(string \<times> cast) list" where
  "cast_table =
     [(''CycloneID'', AsString), (''Year'', AsInt), (''Name'', AsString), (''Month'', AsInt),
      (''Day'', AsInt), (''Hours'', AsInt), (''Minutes'', AsInt), (''RecordID'', AsString),
      (''Status'', AsString), (''LonHemisphere'', AsString), (''MaxWind'', ToNumeric),
      (''MinPressure'', ToNumeric),
      (''34NE'', ToNumeric), (''34SE'', ToNumeric), (''34SW'', ToNumeric), (''34NW'', ToNumeric),
      (''50NE'', ToNumeric), (''50SE'', ToNumeric), (''50SW'', ToNumeric), (''50NW'', ToNumeric),
      (''64NE'', ToNumeric), (''64SE'', ToNumeric), (''64SW'', ToNumeric), (''64NW'', ToNumeric),
      (''RadiusMaxWind'', ToNumeric)]"

text \<open>
  The strings that pandas reads as a number: the grammar of \<^verbatim>\<open>float\<close> without the
  underscores between digits. pandas is a library outside the notebook; this is its
  behaviour on the strings the parsers can produce.
\<close>

definition pd_number :: "string \<Rightarrow> pyfloat option" where
  "pd_number s = (if CHR ''_'' \<in> set s then None else float_of_str s)"

text \<open>
  \<^verbatim>\<open>pd.to_numeric(_, errors='coerce')\<close> on one cell: the number, or NaN for a string that
  is not a number. Whether pandas stores the column as int64 or float64 depends on the
  other cells of the column and is not modelled: the cell is its numeric value.
\<close>

definition to_numeric_coerce :: "pyval \<Rightarrow> pyfloat" where
  "to_numeric_coerce v =
     (case v of
        VStr s \<Rightarrow> (case pd_number s of None \<Rightarrow> NaN | Some f \<Rightarrow> f)
      | VInt n \<Rightarrow> Finite (of_int n)
      | VFlt f \<Rightarrow> f)"

text \<open>
  One cell under one cast. The string form of a float is outside the model
  (\<^const>\<open>Unmodelled\<close>); the columns cast to strings hold strings only.
\<close>

definition cast_value :: "cast \<Rightarrow> pyval \<Rightarrow> pyerror + pyval" where
  "cast_value c v =
     (case c of
        AsString \<Rightarrow>
          (case v of
             VStr s \<Rightarrow> Inr (VStr s)
           | VInt n \<Rightarrow> Inr (VStr (str_int n))
           | VFlt f \<Rightarrow> Inl Unmodelled)
      | AsInt \<Rightarrow> (case py_int v of Inl e \<Rightarrow> Inl e | Inr n \<Rightarrow> Inr (VInt n))
      | ToNumeric \<Rightarrow> Inr (VFlt (to_numeric_coerce v)))"

definition cast_cell :: "string \<times> cast \<Rightarrow> pydict \<Rightarrow> pyerror + pydict" where
  "cast_cell cc r =
     (case cc of (col, c) \<Rightarrow>
        (case cast_value c (cell r col) of
           Inl e \<Rightarrow> Inl e
         | Inr v \<Rightarrow> Inr (AList.update col v r)))"

text \<open>\<^verbatim>\<open>df[col] = cast(df[col])\<close>: KeyError when the frame has no such column.\<close>

definition cast_column :: "string \<times> cast \<Rightarrow> pydict list \<Rightarrow> pyerror + pydict list" where
  "cast_column cc df =
     (if fst cc \<notin> set (columns df) then Inl KeyError else traverse (cast_cell cc) df)"

fun cast_columns :: "(string \<times> cast) list \<Rightarrow> pydict list \<Rightarrow> pyerror + pydict list" where
  "cast_columns [] df = Inr df"
| "cast_columns (cc # ccs) df =
     (case cast_column cc df of Inl e \<Rightarrow> Inl e | Inr df' \<Rightarrow> cast_columns ccs df')"

definition type_cast :: "pydict list \<Rightarrow> pyerror + pydict list" where
  "type_cast df = cast_columns cast_table df"

text \<open>
  \<^verbatim>\<open>df['Datetime'] = pd.to_datetime(df[['Year', 'Month', 'Day', 'Hours', 'Minutes']])\<close>.
  pandas reads the date from the number \<open>year * 10000 + month * 100 + day\<close> in the format
  \<^verbatim>\<open>%Y%m%d\<close> and adds the hours and minutes. The model covers integer cells with a year
  from 1678 to 2261 (inside the range of a nanosecond timestamp), month and day from 0
  to 99, hours from 0 to 23 and minutes from 0 to 59: there the digits of the number are
  year, month and day, a calendar date gives the timestamp and anything else raises
  ValueError. Other cells are outside the model (\<^const>\<open>Unmodelled\<close>). The timestamp is kept
  as the text pandas prints for it.
\<close>

definition leap_year :: "int \<Rightarrow> bool" where
  "leap_year y = (y mod 4 = 0 \<and> (y mod 100 \<noteq> 0 \<or> y mod 400 = 0))"

definition days_in_month :: "int \<Rightarrow> int \<Rightarrow> int" where
  "days_in_month y m =
     (if m = 2 then (if leap_year y then 29 else 28)
      else if m = 4 \<or> m = 6 \<or> m = 9 \<or> m = 11 then 30 else 31)"

definition valid_date :: "int \<Rightarrow> int \<Rightarrow> int \<Rightarrow> bool" where
  "valid_date y m d = (1 \<le> m \<and> m \<le> 12 \<and> 1 \<le> d \<and> d \<le> days_in_month y m)"

definition pad2 :: "int \<Rightarrow> string" where
  "pad2 n = (if n < 10 then CHR ''0'' # str_int n else str_int n)"

definition timestamp_text :: "int \<Rightarrow> int \<Rightarrow> int \<Rightarrow> int \<Rightarrow> int \<Rightarrow> string" where
  "timestamp_text y m d h mi =
     str_int y @ ''-'' @ pad2 m @ ''-'' @ pad2 d @ '' '' @ pad2 h @ '':'' @ pad2 mi @ '':00''"

definition to_datetime :: "pydict \<Rightarrow> pyerror + pyval" where
  "to_datetime r =
     (case (cell r ''Year'', cell r ''Month'', cell r ''Day'', cell r ''Hours'', cell r ''Minutes'') of
        (VInt y, VInt m, VInt d, VInt h, VInt mi) \<Rightarrow>
          if 1678 \<le> y \<and> y \<le> 2261 \<and> 0 \<le> m \<and> m \<le> 99 \<and> 0 \<le> d \<and> d \<le> 99 \<and>
             0 \<le> h \<and> h \<le> 23 \<and> 0 \<le> mi \<and> mi \<le> 59
          then (if valid_date y m d then Inr (VStr (timestamp_text y m d h mi))
                else Inl ValueError)
          else Inl Unmodelled
      | _ \<Rightarrow> Inl Unmodelled)"

definition add_datetime :: "pydict list \<Rightarrow> pyerror + pydict list" where
  "add_datetime df =
     (if \<not> set [''Year'', ''Month'', ''Day'', ''Hours'', ''Minutes''] \<subseteq> set (columns df)
      then Inl KeyError
      else traverse (\<lambda>r. case to_datetime r of
                            Inl e \<Rightarrow> Inl e
                          | Inr t \<Rightarrow> Inr (AList.update ''Datetime'' t r)) df)"

text \<open>
  \<^verbatim>\<open>df['UniqueID'] = df.Year.astype('string') + df.CycloneID\<close>, on one row and on the
  frame. Attribute access to a column the frame does not have raises AttributeError.
\<close>

definition unique_id :: "pydict \<Rightarrow> pyerror + pyval" where
  "unique_id r =
     (case cast_value AsString (cell r ''Year'') of
        Inl e \<Rightarrow> Inl e
      | Inr y \<Rightarrow>
          (case (y, cell r ''CycloneID'') of
             (VStr ys, VStr cs) \<Rightarrow> Inr (VStr (ys @ cs))
           | _ \<Rightarrow> Inl Unmodelled))"

definition assign_unique_id :: "pydict list \<Rightarrow> pyerror + pydict list" where
  "assign_unique_id df =
     (if \<not> set [''Year'', ''CycloneID''] \<subseteq> set (columns df) then Inl AttributeError
      else traverse (\<lambda>r. case unique_id r of
                            Inl e \<Rightarrow> Inl e
                          | Inr u \<Rightarrow> Inr (AList.update ''UniqueID'' u r)) df)"

text \<open>
  The run of the notebook after the assembler, in the order of its cells: the
  single-valued columns are removed, the columns are cast, the timestamp is composed,
  the key is assigned.
\<close>

definition normalize :: "pydict list \<Rightarrow> pyerror + pydict list" where
  "normalize df =
     (case type_cast (drop_constant_columns df) of
        Inl e \<Rightarrow> Inl e
      | Inr df2 \<Rightarrow>
          (case add_datetime df2 of
             Inl e \<Rightarrow> Inl e
           | Inr df3 \<Rightarrow> assign_unique_id df3))"

text \<open>
  The whole notebook on the lines of the file: the assembler, the call of the validator
  (its answer is printed, an exception stops the run), then the cells above. The cells
  that only display something read columns that the cast cell has required before.
\<close>

definition pipeline :: "string list \<Rightarrow> pyerror + pydict list" where
  "pipeline lines =
     (case parse_hurdat2 lines of
        Inl e \<Rightarrow> Inl e
      | Inr df \<Rightarrow>
          (case test_entries_count df of
             Inl e \<Rightarrow> Inl e
           | Inr ok \<Rightarrow> normalize df))"

section \<open>Notions used to state the properties\<close>

text \<open>A string with no whitespace at either end.\<close>

definition trimmed :: "string \<Rightarrow> bool" where
  "trimmed s = (s = [] \<or> \<not> isspace (hd s) \<and> \<not> isspace (last s))"

text \<open>
  A field of a raw line of the file as the loop body reads it: the line is stripped
  first, then sliced, then the slice is stripped.
\<close>

definition data_field :: "string \<Rightarrow> nat \<Rightarrow> nat \<Rightarrow> string" where
  "data_field raw a b = strip (slice a b (strip raw))"

text \<open>Both coordinate fields of the line are float literals.\<close>

definition convertible :: "string \<Rightarrow> bool" where
  "convertible raw = (float_of_str (data_field raw 23 27) \<noteq> None \<and> float_of_str (data_field raw 30 35) \<noteq> None)"

text \<open>The converted coordinate: the magnitude as it is for the one letter, negated otherwise.\<close>

definition signed_coord :: "string \<Rightarrow> string \<Rightarrow> string \<Rightarrow> pyfloat" where
  "signed_coord mag hem pos = (case float_of_str mag of None \<Rightarrow> NaN | Some a \<Rightarrow> if hem = pos then a else fneg a)"

text \<open>The dictionary of a data line after the two coordinates have been stored back.\<close>

definition parsed_converted :: "string \<Rightarrow> pydict" where
  "parsed_converted raw =
     AList.update ''Longitude'' (VFlt (signed_coord (data_field raw 30 35) (data_field raw 35 36) ''E''))
       (AList.update ''Latitude'' (VFlt (signed_coord (data_field raw 23 27) (data_field raw 27 28) ''N''))
          (parse_data_line (strip raw)))"

text \<open>The composite record of a header and a data line.\<close>

definition combined_row :: "pydict \<Rightarrow> string \<Rightarrow> pydict" where
  "combined_row header raw = dict_merge header (parsed_converted raw)"

text \<open>
  A record that the assembler can emit from the lines: the composite of a data line with
  the header read from an earlier line that starts with \<^verbatim>\<open>AL\<close>.
\<close>

definition emitted :: "string list \<Rightarrow> pydict \<Rightarrow> bool" where
  "emitted lines r =
     (\<exists>h j header n.
        h < j \<and> j < length lines \<and> startswith (strip (lines ! h)) ''AL'' \<and>
        read_header (strip (lines ! h)) = Inr (header, n) \<and>
        convertible (lines ! j) \<and> r = combined_row header (lines ! j))"

text \<open>The integer columns of the data line are integer literals.\<close>

definition castable :: "string \<Rightarrow> bool" where
  "castable raw =
     (int_of_str (data_field raw 0 4) \<noteq> None \<and> int_of_str (data_field raw 4 6) \<noteq> None \<and>
      int_of_str (data_field raw 6 8) \<noteq> None \<and> int_of_str (data_field raw 10 12) \<noteq> None \<and>
      int_of_str (data_field raw 12 14) \<noteq> None)"


text \<open>One row before and after the cast of one column.\<close>

definition cast_step :: "string \<Rightarrow> cast \<Rightarrow> pydict \<Rightarrow> pydict \<Rightarrow> bool" where
  "cast_step col c r r' = (\<exists>v. cast_value c (cell r col) = Inr v \<and> r' = AList.update col v r)"

text \<open>
  One row before and after a list of casts: no key is lost, a column outside the list
  keeps its cell, a column of the list holds the result of its cast.
\<close>

definition cast_rel :: "(string \<times> cast) list \<Rightarrow> pydict \<Rightarrow> pydict \<Rightarrow> bool" where
  "cast_rel ccs r r' =
     (fst ` set r \<subseteq> fst ` set r' \<and>
      (\<forall>col. (map_of ccs col = None \<longrightarrow> cell r' col = cell r col) \<and>
             (\<forall>c. map_of ccs col = Some c \<longrightarrow> cast_value c (cell r col) = Inr (cell r' col))))"

text \<open>A row that has every column of the cast table, each with a cell its cast accepts.\<close>

definition castable_row :: "pydict \<Rightarrow> bool" where
  "castable_row r =
     (\<forall>(col, c)\<in>set cast_table. col \<in> fst ` set r \<and> (\<exists>v. cast_value c (cell r col) = Inr v))"

text \<open>The header dictionary of a raw header line whose count reads as \<open>n\<close>.\<close>

definition header_of :: "string \<Rightarrow> int \<Rightarrow> pydict" where
  "header_of raw n = AList.update ''Entries'' (VInt n) (parse_header_line (strip raw))"

text \<open>The columns that survive the removal of the single-valued columns.\<close>

definition kept :: "pydict list \<Rightarrow> string set" where
  "kept df = {c \<in> set (columns df). 1 < nunique df c}"

text \<open>One row before and after the timestamp cell, and before and after the key cell.\<close>

definition datetime_step :: "pydict \<Rightarrow> pydict \<Rightarrow> bool" where
  "datetime_step r r' = (\<exists>t. to_datetime r = Inr t \<and> r' = AList.update ''Datetime'' t r)"

definition key_step :: "pydict \<Rightarrow> pydict \<Rightarrow> bool" where
  "key_step r r' = (\<exists>u. unique_id r = Inr u \<and> r' = AList.update ''UniqueID'' u r)"

text \<open>
  A row whose date and time cells read as integers inside the range that
  \<^const>\<open>to_datetime\<close> covers and form a calendar date.
\<close>

definition datable :: "pydict \<Rightarrow> bool" where
  "datable r =
     (\<exists>y m d h mi.
        py_int (cell r ''Year'') = Inr y \<and> py_int (cell r ''Month'') = Inr m \<and>
        py_int (cell r ''Day'') = Inr d \<and> py_int (cell r ''Hours'') = Inr h \<and>
        py_int (cell r ''Minutes'') = Inr mi \<and>
        1678 \<le> y \<and> y \<le> 2261 \<and> valid_date y m d \<and> 0 \<le> h \<and> h \<le> 23 \<and> 0 \<le> mi \<and> mi \<le> 59)"

section \<open>Example lines\<close>

text \<open>Lines in the layout of the HURDAT2 file, with the newline that \<^verbatim>\<open>readlines\<close> keeps.\<close>

definition nl :: string where "nl = [CHR 0x0A]"
definition ex_header :: string where
  "ex_header = ''AL011851,            UNNAMED,   0005,'' @ nl"
definition ex_header3 :: string where
  "ex_header3 = ''AL011851,            UNNAMED,   0003,'' @ nl"
definition ex_header_ep :: string where
  "ex_header_ep = ''EP011851,            UNNAMED,      1,'' @ nl"
definition ex_header_one :: string where
  "ex_header_one = ''AL011851,            UNNAMED,      1,'' @ nl"
definition ex_header_bad :: string where
  "ex_header_bad = ''AL011851,            UNNAMED,    abc,''"
definition ex_header_neg :: string where
  "ex_header_neg = ''AL011851,            UNNAMED,     -5,''"
definition ex_header_short :: string where
  "ex_header_short = ''AL011851,            UNNAMED,     5''"
definition ex_data :: string where
  "ex_data = ''18510625, 0000,  , HU, 28.0N,  94.8W,  80, -999, -999, -999, -999, -999, -999, -999, -999, -999, -999, -999, -999, -999, -999'' @ nl"
definition ex_data_283 :: string where
  "ex_data_283 = ''18510625, 0000,  , HU,  283N,  94.8W,  80, -999, -999, -999, -999, -999, -999, -999, -999, -999, -999, -999, -999, -999, -999'' @ nl"

definition ex_header_alice :: string where
  "ex_header_alice = ''AL161954,              ALICE,      2,'' @ nl"
definition ex_data_1954 :: string where
  "ex_data_1954 = ''19541231, 1800,  , HU, 19.0N,  59.8W,  65, -999, -999, -999, -999, -999, -999, -999, -999, -999, -999, -999, -999, -999, -999'' @ nl"
definition ex_data_1955 :: string where
  "ex_data_1955 = ''19550101, 0000,  , HU, 18.6N,  60.5W,  65, -999, -999, -999, -999, -999, -999, -999, -999, -999, -999, -999, -999, -999, -999'' @ nl"


text \<open>
  A file of two storms whose rows differ in every column that the casts read: a block of
  two lines across the turn of the year 1954, and a block of one line of 1851.
\<close>

definition ex_data_x :: string where
  "ex_data_x = ''18510625, 0030, L, TS, 28.0N,  94.8E,  80,  990,   10,   20,   30,   40,   50,   60,   70,   80,   90,  100,  110,  120,   15'' @ nl"

definition ex_lines :: "string list" where
  "ex_lines = [ex_header_alice, ex_data_1954, ex_data_1955, ex_header_one, ex_data_x]"

text \<open>The rows that the assembler emits for these lines.\<close>

definition ex_rows :: "pydict list" where
  "ex_rows =
     [combined_row (header_of ex_header_alice 2) ex_data_1954,
      combined_row (header_of ex_header_alice 2) ex_data_1955,
      combined_row (header_of ex_header_one 1) ex_data_x]"

section \<open>Properties of the line parsers\<close>

lemma strip_Nil: "strip [] = []"
  by (simp add: strip_def lstrip_def rstrip_def)

lemma slice_beyond: "length s \<le> a \<Longrightarrow> slice a b s = []"
  by (simp add: slice_def)

lemma map_of_fields:
  assumes "distinct (map fst fs)" and "(k, a, b) \<in> set fs"
  shows "map_of (map (field_entry l) fs) k = Some (VStr (strip (slice a b l)))"
proof -
  have "distinct (map fst (map (field_entry l) fs))"
    using assms(1) by (simp add: field_entry_def comp_def case_prod_unfold)
  moreover have "(k, VStr (strip (slice a b l))) \<in> set (map (field_entry l) fs)"
    using assms(2) by (force simp: field_entry_def)
  ultimately show ?thesis by (rule map_of_is_SomeI)
qed

lemma keys_fields: "map fst (map (field_entry l) fs) = map fst fs"
  by (simp add: field_entry_def comp_def case_prod_unfold)

lemma distinct_header_fields: "distinct (map fst header_fields)"
  by (simp add: header_fields_def)

lemma distinct_data_fields: "distinct (map fst data_fields)"
  by (simp add: data_fields_def)

lemma getitem_header:
  "(k, a, b) \<in> set header_fields \<Longrightarrow> getitem (parse_header_line l) k = Inr (VStr (strip (slice a b l)))"
  by (simp add: getitem_def parse_header_line_def map_of_fields [OF distinct_header_fields])

lemma getitem_data:
  "(k, a, b) \<in> set data_fields \<Longrightarrow> getitem (parse_data_line l) k = Inr (VStr (strip (slice a b l)))"
  by (simp add: getitem_def parse_data_line_def map_of_fields [OF distinct_data_fields])

lemma last_dropWhile: "dropWhile P xs \<noteq> [] \<Longrightarrow> last (dropWhile P xs) = last xs"
  by (induction xs) (auto split: if_splits)

lemma trimmed_strip: "trimmed (strip s)"
proof (cases "strip s = []")
  case True
  then show ?thesis by (simp add: trimmed_def)
next
  case False
  let ?r = "rstrip s"
  from False have ne: "dropWhile isspace ?r \<noteq> []" by (simp add: strip_def lstrip_def)
  then have h: "\<not> isspace (hd (strip s))"
    by (simp add: strip_def lstrip_def hd_dropWhile)
  from ne have rne: "?r \<noteq> []" by auto
  then have dne: "dropWhile isspace (rev s) \<noteq> []" by (simp add: rstrip_def)
  have "last (strip s) = last ?r"
    using ne by (simp add: strip_def lstrip_def last_dropWhile)
  also have "\<dots> = hd (dropWhile isspace (rev s))"
    using dne by (simp add: rstrip_def last_rev)
  finally have "\<not> isspace (last (strip s))"
    using dne by (simp add: hd_dropWhile)
  with h show ?thesis by (simp add: trimmed_def)
qed

lemma fields_trimmed:
  "kv \<in> set (map (field_entry l) fs) \<Longrightarrow> \<exists>s. snd kv = VStr s \<and> trimmed s"
  by (auto simp: field_entry_def trimmed_strip)

text \<open>
  Claim C10. The header line parser and the data line parser are total: on every string,
  the empty one and those shorter than the largest offset included, each returns the
  dictionary of its keys with the stripped slices as values, and a field whose range
  starts at or beyond the end of the string is the empty string.
\<close>

theorem parsers_total:
  "map fst (parse_header_line l) = map fst header_fields \<and>
   map fst (parse_data_line l) = map fst data_fields \<and>
   (\<forall>(k, a, b)\<in>set header_fields.
      getitem (parse_header_line l) k = Inr (VStr (strip (slice a b l))) \<and>
      (length l \<le> a \<longrightarrow> getitem (parse_header_line l) k = Inr (VStr []))) \<and>
   (\<forall>(k, a, b)\<in>set data_fields.
      getitem (parse_data_line l) k = Inr (VStr (strip (slice a b l))) \<and>
      (length l \<le> a \<longrightarrow> getitem (parse_data_line l) k = Inr (VStr []))) \<and>
   (\<forall>kv\<in>set (parse_header_line l) \<union> set (parse_data_line l).
      \<exists>s. snd kv = VStr s \<and> trimmed s)"
proof (intro conjI)
  show "\<forall>kv\<in>set (parse_header_line l) \<union> set (parse_data_line l).
      \<exists>s. snd kv = VStr s \<and> trimmed s"
    unfolding parse_header_line_def parse_data_line_def
    using fields_trimmed by blast
  show "map fst (parse_header_line l) = map fst header_fields"
    unfolding parse_header_line_def by (rule keys_fields)
  show "map fst (parse_data_line l) = map fst data_fields"
    unfolding parse_data_line_def by (rule keys_fields)
  show "\<forall>(k, a, b)\<in>set header_fields.
      getitem (parse_header_line l) k = Inr (VStr (strip (slice a b l))) \<and>
      (length l \<le> a \<longrightarrow> getitem (parse_header_line l) k = Inr (VStr []))"
    using getitem_header [of _ _ _ l] by (auto simp: slice_beyond strip_Nil)
  show "\<forall>(k, a, b)\<in>set data_fields.
      getitem (parse_data_line l) k = Inr (VStr (strip (slice a b l))) \<and>
      (length l \<le> a \<longrightarrow> getitem (parse_data_line l) k = Inr (VStr []))"
    using getitem_data [of _ _ _ l] by (auto simp: slice_beyond strip_Nil)
qed

theorem parsers_total_witness:
  "getitem (parse_header_line ''AL'') ''Basin'' = Inr (VStr ''AL'') \<and>
   getitem (parse_header_line ''AL'') ''Entries'' = Inr (VStr []) \<and>
   getitem (parse_data_line []) ''Year'' = Inr (VStr []) \<and>
   getitem (parse_data_line []) ''RadiusMaxWind'' = Inr (VStr [])"
proof -
  have s: "strip (slice 0 2 ''AL'') = ''AL''" by code_simp
  show ?thesis
  using parsers_total [of "''AL''"] parsers_total [of "[]"] s
  by (simp add: header_fields_def data_fields_def slice_def strip_Nil)
qed

section \<open>Properties of the header branch\<close>

lemma map_of_field_entries:
  "map_of (map (field_entry l) fs) k = map_option (\<lambda>(a, b). VStr (strip (slice a b l))) (map_of fs k)"
  by (induction fs) (auto simp: field_entry_def)

lemma read_header_eq:
  "read_header line =
     (case int_of_str (strip (slice 33 36 line)) of
        None \<Rightarrow> Inl ValueError
      | Some n \<Rightarrow> Inr (AList.update ''Entries'' (VInt n) (parse_header_line line), n))"
proof -
  have "getitem (parse_header_line line) ''Entries'' = Inr (VStr (strip (slice 33 36 line)))"
    by (rule getitem_header) (simp add: header_fields_def)
  then show ?thesis
    by (simp add: read_header_def py_int_def split: option.splits)
qed

text \<open>
  Claim C6, as the code has it. The header line parser never fails: on every line it
  returns the five stripped slices. The entry count is converted afterwards, in the
  assembler, and that conversion raises ValueError exactly when the stripped columns
  33 to 36 are not an integer literal (a sign is allowed, so a negative count is read);
  this is the case for every line of at most 33 characters.
\<close>

theorem header_parser_total:
  "(\<forall>(k, a, b)\<in>set header_fields.
      getitem (parse_header_line line) k = Inr (VStr (strip (slice a b line)))) \<and>
   read_header line =
     (case int_of_str (strip (slice 33 36 line)) of
        None \<Rightarrow> Inl ValueError
      | Some n \<Rightarrow> Inr (AList.update ''Entries'' (VInt n) (parse_header_line line), n)) \<and>
   (length line \<le> 33 \<longrightarrow> read_header line = Inl ValueError)"
proof (intro conjI impI)
  show "\<forall>(k, a, b)\<in>set header_fields.
      getitem (parse_header_line line) k = Inr (VStr (strip (slice a b line)))"
    using getitem_header [of _ _ _ line] by auto
  show "read_header line =
     (case int_of_str (strip (slice 33 36 line)) of
        None \<Rightarrow> Inl ValueError
      | Some n \<Rightarrow> Inr (AList.update ''Entries'' (VInt n) (parse_header_line line), n))"
    by (rule read_header_eq)
  assume "length line \<le> 33"
  then show "read_header line = Inl ValueError"
    by (simp add: read_header_eq slice_beyond strip_Nil int_of_str_def)
qed

text \<open>
  The claim as stated fails: the parser returns on the empty line and on a line whose
  count is not a number, a negative count is read without error, and a line of 35
  characters, shorter than the largest offset, is read with its count.
\<close>

theorem header_parser_counterexample:
  "parse_header_line [] =
     [(''Basin'', VStr []), (''CycloneID'', VStr []), (''Year'', VStr []), (''Name'', VStr []),
      (''Entries'', VStr [])] \<and>
   getitem (parse_header_line ex_header_bad) ''Entries'' = Inr (VStr ''abc'') \<and>
   map_sum id snd (read_header ex_header_neg) = Inr (- 5) \<and>
   length ex_header_short < 36 \<and> map_sum id snd (read_header ex_header_short) = Inr 5"
  by code_simp

theorem header_parser_total_witness:
  "getitem (parse_header_line ''AL'') ''Name'' = Inr (VStr []) \<and>
   read_header ''AL'' = Inl ValueError"
  using header_parser_total [of "''AL''"]
  by (simp add: header_fields_def slice_def strip_Nil int_of_str_def)

section \<open>Properties of the coordinate converter\<close>

lemma fmul_int_1 [simp]: "fmul_int f 1 = f"
  by (cases f) (simp_all add: fmul_int_def)

lemma fmul_int_m1 [simp]: "fmul_int f (- 1) = fneg f"
  by (cases f) (simp_all add: fmul_int_def fneg_def)

lemma convert_lat_lon_str:
  "convert_lat_lon (VStr lat) lat_hem (VStr lon) lon_hem =
     (case float_of_str lat of
        None \<Rightarrow> Inl ValueError
      | Some a \<Rightarrow>
          (case float_of_str lon of
             None \<Rightarrow> Inl ValueError
           | Some b \<Rightarrow> Inr (if lat_hem = VStr ''N'' then a else fneg a,
                            if lon_hem = VStr ''E'' then b else fneg b)))"
  by (simp add: convert_lat_lon_def py_float_def split: option.splits)

text \<open>
  Claim C3, as the code has it. The converter returns the magnitude as read for the
  hemisphere \<^verbatim>\<open>N\<close> (latitude) and \<^verbatim>\<open>E\<close> (longitude) and the negated magnitude for every
  other hemisphere value, \<^verbatim>\<open>S\<close> and \<^verbatim>\<open>W\<close> included. It fails only with the ValueError of
  \<^verbatim>\<open>float\<close>, when a magnitude is not a float literal.
\<close>

theorem convert_lat_lon_hemisphere:
  "(float_of_str lat = Some a \<and> float_of_str lon = Some b \<longrightarrow>
      convert_lat_lon (VStr lat) lat_hem (VStr lon) lon_hem =
        Inr (if lat_hem = VStr ''N'' then a else fneg a,
             if lon_hem = VStr ''E'' then b else fneg b)) \<and>
   (float_of_str lat = None \<or> float_of_str lon = None \<longrightarrow>
      convert_lat_lon (VStr lat) lat_hem (VStr lon) lon_hem = Inl ValueError)"
  by (auto simp: convert_lat_lon_str split: option.splits)

text \<open>
  The claim as stated fails: the hemisphere letters \<^verbatim>\<open>X\<close> and \<^verbatim>\<open>Q\<close> are not rejected,
  both coordinates come back negated.
\<close>

theorem convert_lat_lon_counterexample:
  "convert_lat_lon (VStr ''28.0'') (VStr ''X'') (VStr ''94.8'') (VStr ''Q'') =
     Inr (Finite (- 28), Finite (- (474 / 5)))"
  by code_simp

theorem convert_lat_lon_hemisphere_witness:
  "convert_lat_lon (VStr ''28.0'') (VStr ''N'') (VStr ''94.8'') (VStr ''W'') =
     Inr (Finite 28, Finite (- (474 / 5))) \<and>
   convert_lat_lon (VStr ''28.0'') (VStr ''S'') (VStr ''94.8'') (VStr ''E'') =
     Inr (Finite (- 28), Finite (474 / 5)) \<and>
   convert_lat_lon (VStr ''28.0'') (VStr ''N'') (VStr ''abc'') (VStr ''W'') = Inl ValueError"
proof -
  have a: "float_of_str ''28.0'' = Some (Finite 28)" by code_simp
  have b: "float_of_str ''94.8'' = Some (Finite (474 / 5))" by code_simp
  have c: "float_of_str ''abc'' = None" by code_simp
  from convert_lat_lon_hemisphere [of "''28.0''" "Finite 28" "''94.8''" "Finite (474 / 5)"]
    convert_lat_lon_hemisphere [of "''28.0''" "Finite 28" "''abc''" _ "VStr ''N''" "VStr ''W''"]
    a b c
  show ?thesis by (simp add: fneg_def)
qed

section \<open>Properties of the loop body\<close>

lemma map_of_dict_merge:
  "distinct (map fst b) \<Longrightarrow> map_of (dict_merge a b) = map_of a ++ map_of b"
proof (induction b arbitrary: a)
  case Nil
  then show ?case by (simp add: dict_merge_def)
next
  case (Cons kv b)
  obtain k v where kv: "kv = (k, v)" by (cases kv)
  from Cons.prems kv have d: "distinct (map fst b)" and nk: "k \<notin> fst ` set b" by auto
  have "dict_merge a (kv # b) = dict_merge (AList.update k v a) b"
    by (simp add: dict_merge_def kv)
  then have "map_of (dict_merge a (kv # b)) = map_of (AList.update k v a) ++ map_of b"
    using Cons.IH [OF d] by (simp only:)
  also have "\<dots> = (map_of a)(k \<mapsto> v) ++ map_of b"
    by (simp only: update_conv')
  also have "\<dots> = map_of a ++ map_of (kv # b)"
  proof
    fix x
    from nk have "map_of b k = None" by (simp add: map_of_eq_None_iff)
    then show "((map_of a)(k \<mapsto> v) ++ map_of b) x = (map_of a ++ map_of (kv # b)) x"
      by (auto simp: kv map_add_def split: option.splits)
  qed
  finally show ?case .
qed

lemma combine_eq:
  "combine header raw =
     (if convertible raw then Inr (dict_merge header (parsed_converted raw)) else Inl ValueError)"
proof -
  have g: "getitem (parse_data_line (strip raw)) ''Latitude'' = Inr (VStr (data_field raw 23 27))"
    "getitem (parse_data_line (strip raw)) ''LatHemisphere'' = Inr (VStr (data_field raw 27 28))"
    "getitem (parse_data_line (strip raw)) ''Longitude'' = Inr (VStr (data_field raw 30 35))"
    "getitem (parse_data_line (strip raw)) ''LonHemisphere'' = Inr (VStr (data_field raw 35 36))"
    unfolding data_field_def by (rule getitem_data, simp add: data_fields_def)+
  show ?thesis
    by (auto simp: combine_def Let_def g convert_lat_lon_str convertible_def parsed_converted_def
        signed_coord_def split: option.splits)
qed

lemma distinct_parse_data_line: "distinct (map fst (parse_data_line l))"
  by (simp only: parse_data_line_def keys_fields distinct_data_fields)

lemma distinct_parsed_converted: "distinct (map fst (parsed_converted raw))"
  unfolding parsed_converted_def
  by (intro distinct_update distinct_parse_data_line)

lemma map_of_parsed_converted:
  "map_of (parsed_converted raw) k =
     (if k = ''Longitude'' then Some (VFlt (signed_coord (data_field raw 30 35) (data_field raw 35 36) ''E''))
      else if k = ''Latitude'' then Some (VFlt (signed_coord (data_field raw 23 27) (data_field raw 27 28) ''N''))
      else map_of (parse_data_line (strip raw)) k)"
  by (simp add: parsed_converted_def update_conv')

lemma cell_combined:
  "cell (dict_merge header (parsed_converted raw)) k =
     (case map_of (parsed_converted raw) k of None \<Rightarrow> cell header k | Some v \<Rightarrow> v)"
  by (simp add: cell_def map_of_dict_merge [OF distinct_parsed_converted] map_add_def split: option.splits)

lemma combine_row:
  "combine header raw = (if convertible raw then Inr (combined_row header raw) else Inl ValueError)"
  by (simp add: combine_eq combined_row_def)

lemma cell_header:
  "cell (AList.update ''Entries'' (VInt n) (parse_header_line line)) k =
     (if k = ''Entries'' then VInt n
      else case map_of header_fields k of
             None \<Rightarrow> VFlt NaN
           | Some (a, b) \<Rightarrow> VStr (strip (slice a b line)))"
  by (simp add: cell_def update_conv' parse_header_line_def map_of_field_entries
      split: option.splits)

lemma cell_combined_row:
  "cell (combined_row header raw) k =
     (if k = ''Longitude''
      then VFlt (signed_coord (data_field raw 30 35) (data_field raw 35 36) ''E'')
      else if k = ''Latitude''
      then VFlt (signed_coord (data_field raw 23 27) (data_field raw 27 28) ''N'')
      else case map_of data_fields k of
             None \<Rightarrow> cell header k
           | Some (a, b) \<Rightarrow> VStr (data_field raw a b))"
  by (simp add: combined_row_def cell_combined map_of_parsed_converted parse_data_line_def
      map_of_field_entries data_field_def split: option.splits)

text \<open>
  Claim C5, as the code has it. The latitude field is read as a decimal literal, with
  no scaling: a data line whose latitude field is \<^verbatim>\<open>283\<close> with hemisphere \<^verbatim>\<open>N\<close> gives the
  latitude 283.0, and the field \<^verbatim>\<open>28.3\<close> gives 28.3.
\<close>

theorem latitude_literal:
  assumes "data_field raw 27 28 = ''N''" and "float_of_str (data_field raw 30 35) \<noteq> None"
  shows "(data_field raw 23 27 = ''283'' \<longrightarrow>
            (\<exists>r. combine header raw = Inr r \<and> cell r ''Latitude'' = VFlt (Finite 283))) \<and>
         (data_field raw 23 27 = ''28.3'' \<longrightarrow>
            (\<exists>r. combine header raw = Inr r \<and> cell r ''Latitude'' = VFlt (Finite (283 / 10))))"
proof -
  have a: "float_of_str ''283'' = Some (Finite 283)" by code_simp
  have b: "float_of_str ''28.3'' = Some (Finite (283 / 10))" by code_simp
  show ?thesis
    using assms a b
    by (simp add: combine_row convertible_def cell_combined_row signed_coord_def)
qed

text \<open>
  The claim as stated fails: the record emitted for the line with the latitude field
  \<^verbatim>\<open>283\<close> has the latitude 283.0.
\<close>

theorem latitude_counterexample:
  "map_sum id (column ''Latitude'') (parse_hurdat2 [ex_header_one, ex_data_283]) =
     Inr [VFlt (Finite 283)]"
  by code_simp

theorem latitude_literal_witness:
  "data_field ex_data_283 23 27 = ''283'' \<and> data_field ex_data_283 27 28 = ''N'' \<and>
   (\<exists>r. combine [] ex_data_283 = Inr r \<and> cell r ''Latitude'' = VFlt (Finite 283))"
proof -
  have 1: "data_field ex_data_283 27 28 = ''N''" by code_simp
  have 2: "float_of_str (data_field ex_data_283 30 35) \<noteq> None" by code_simp
  have 3: "data_field ex_data_283 23 27 = ''283''" by code_simp
  from latitude_literal [OF 1 2, of "[]"] 1 3 show ?thesis by simp
qed

section \<open>Properties of the record assembler\<close>

lemma for_loop_ok:
  "i + k \<le> length lines \<Longrightarrow> list_all convertible (take k (drop i lines)) \<Longrightarrow>
   for_loop header lines k i data =
     Inr (i + k, data @ map (combined_row header) (take k (drop i lines)))"
proof (induction k arbitrary: i data)
  case 0
  then show ?case by simp
next
  case (Suc k)
  from Suc.prems(1) have i: "i < length lines" by simp
  then have d: "drop i lines = lines ! i # drop (Suc i) lines"
    by (simp add: Cons_nth_drop_Suc)
  from Suc.prems(2) d have c: "convertible (lines ! i)"
    and r: "list_all convertible (take k (drop (Suc i) lines))" by simp_all
  from Suc.prems(1) have "Suc i + k \<le> length lines" by simp
  from Suc.IH [OF this r]
  show ?case using i c d by (simp add: combine_row)
qed

lemma for_loop_short:
  "length lines - i < k \<Longrightarrow>
   for_loop header lines k i data =
     Inl (if list_all convertible (drop i lines) then IndexError else ValueError)"
proof (induction k arbitrary: i data)
  case 0
  then show ?case by simp
next
  case (Suc k)
  show ?case
  proof (cases "i < length lines")
    case False
    then show ?thesis by simp
  next
    case True
    then have d: "drop i lines = lines ! i # drop (Suc i) lines"
      by (simp add: Cons_nth_drop_Suc)
    from Suc.prems True have "length lines - Suc i < k" by simp
    from Suc.IH [OF this] show ?thesis using True d by (simp add: combine_row)
  qed
qed

lemma for_loop_emitted:
  assumes "for_loop header lines k i data = Inr (j, data')"
    and "h < i" and "startswith (strip (lines ! h)) ''AL''"
    and "read_header (strip (lines ! h)) = Inr (header, n)"
    and "\<forall>r\<in>set data. emitted lines r"
  shows "\<forall>r\<in>set data'. emitted lines r"
  using assms
proof (induction k arbitrary: i data)
  case 0
  then show ?case by simp
next
  case (Suc k)
  from Suc.prems(1) have i: "i < length lines" by (simp split: if_splits)
  from Suc.prems(1) i have c: "convertible (lines ! i)"
    by (simp add: combine_row split: if_splits)
  from Suc.prems(1) i c
  have loop: "for_loop header lines k (Suc i) (data @ [combined_row header (lines ! i)]) = Inr (j, data')"
    by (simp add: combine_row)
  have "emitted lines (combined_row header (lines ! i))"
    unfolding emitted_def using Suc.prems(2,3,4) i c by blast
  with Suc.prems(5) have "\<forall>r\<in>set (data @ [combined_row header (lines ! i)]). emitted lines r"
    by simp
  with Suc.IH [OF loop _ Suc.prems(3,4)] Suc.prems(2) show ?case by simp
qed

lemma parse_loop_emitted:
  "parse_loop lines i data = Inr df \<Longrightarrow> \<forall>r\<in>set data. emitted lines r \<Longrightarrow>
   \<forall>r\<in>set df. emitted lines r"
proof (induction lines i data rule: parse_loop.induct)
  case (1 lines i data)
  show ?case
  proof (cases "i < length lines")
    case False
    with "1.prems" show ?thesis by (simp add: parse_loop.simps)
  next
    case True
    show ?thesis
    proof (cases "startswith (strip (lines ! i)) ''AL''")
      case False
      with True "1.prems" have "parse_loop lines (Suc i) data = Inr df"
        by (simp add: parse_loop.simps [of lines i])
      from "1.IH"(2) [OF True False this "1.prems"(2)] show ?thesis .
    next
      case al: True
      from True al "1.prems"(1) obtain header n j data'
        where rh: "read_header (strip (lines ! i)) = Inr (header, n)"
          and fl: "for_loop header lines (nat n) (Suc i) data = Inr (j, data')"
          and pl: "parse_loop lines j data' = Inr df"
        by (auto simp: parse_loop.simps [of lines i] split: sum.splits)
      have "\<forall>r\<in>set data'. emitted lines r"
        using for_loop_emitted [OF fl _ al rh "1.prems"(2)] by simp
      from "1.IH"(1) [OF True al rh refl fl refl pl this] show ?thesis .
    qed
  qed
qed

lemma parse_loop_no_header:
  "\<forall>l\<in>set lines. \<not> startswith (strip l) ''AL'' \<Longrightarrow> parse_loop lines i data = Inr data"
proof (induction lines i data rule: parse_loop.induct)
  case (1 lines i data)
  show ?case
  proof (cases "i < length lines")
    case False
    then show ?thesis by (simp add: parse_loop.simps)
  next
    case True
    with "1.prems" have na: "\<not> startswith (strip (lines ! i)) ''AL''" by simp
    from "1.IH"(2) [OF True na "1.prems"] True na show ?thesis
      by (simp add: parse_loop.simps [of lines i])
  qed
qed

lemma strip_AL: "strip ''AL'' = ''AL''"
  by code_simp

lemma startswith_AL_slice: "startswith s ''AL'' \<Longrightarrow> slice 0 2 s = ''AL''"
  by (simp add: startswith_def slice_def numeral_2_eq_2)

lemma emitted_basin:
  assumes "emitted lines r"
  shows "cell r ''Basin'' = VStr ''AL''"
proof -
  from assms obtain h j header n where al: "startswith (strip (lines ! h)) ''AL''"
    and rh: "read_header (strip (lines ! h)) = Inr (header, n)"
    and r: "r = combined_row header (lines ! j)"
    unfolding emitted_def by blast
  from rh have hd: "header = AList.update ''Entries'' (VInt n) (parse_header_line (strip (lines ! h)))"
    by (auto simp: read_header_eq split: option.splits)
  have "cell r ''Basin'' = cell header ''Basin''"
    unfolding r by (simp add: cell_combined_row data_fields_def)
  also have "\<dots> = VStr (strip (slice 0 2 (strip (lines ! h))))"
    unfolding hd by (simp add: cell_header header_fields_def)
  finally show ?thesis by (simp add: startswith_AL_slice [OF al] strip_AL)
qed

text \<open>
  Claim C2, as the code has it. A line is taken as a header exactly when its stripped
  form starts with \<^verbatim>\<open>AL\<close>, whatever its shape: with no such line nothing is emitted, every
  emitted record has the basin \<^verbatim>\<open>AL\<close>, a line without the prefix is skipped, and a line
  with the prefix whose count is not an integer literal raises ValueError.
\<close>

theorem header_by_prefix:
  "((\<forall>l\<in>set lines. \<not> startswith (strip l) ''AL'') \<longrightarrow> parse_hurdat2 lines = Inr []) \<and>
   (parse_hurdat2 lines = Inr df \<longrightarrow> (\<forall>r\<in>set df. cell r ''Basin'' = VStr ''AL'')) \<and>
   (i < length lines \<and> \<not> startswith (strip (lines ! i)) ''AL'' \<longrightarrow>
      parse_loop lines i data = parse_loop lines (Suc i) data) \<and>
   (i < length lines \<and> startswith (strip (lines ! i)) ''AL'' \<and>
    int_of_str (strip (slice 33 36 (strip (lines ! i)))) = None \<longrightarrow>
      parse_loop lines i data = Inl ValueError)"
proof (intro conjI impI)
  assume "\<forall>l\<in>set lines. \<not> startswith (strip l) ''AL''"
  then show "parse_hurdat2 lines = Inr []"
    unfolding parse_hurdat2_def by (rule parse_loop_no_header)
next
  assume "parse_hurdat2 lines = Inr df"
  then have "\<forall>r\<in>set df. emitted lines r"
    unfolding parse_hurdat2_def by (rule parse_loop_emitted) simp
  then show "\<forall>r\<in>set df. cell r ''Basin'' = VStr ''AL''"
    by (blast intro: emitted_basin)
next
  assume "i < length lines \<and> \<not> startswith (strip (lines ! i)) ''AL''"
  then show "parse_loop lines i data = parse_loop lines (Suc i) data"
    by (simp add: parse_loop.simps [of lines i])
next
  assume "i < length lines \<and> startswith (strip (lines ! i)) ''AL'' \<and>
    int_of_str (strip (slice 33 36 (strip (lines ! i)))) = None"
  then show "parse_loop lines i data = Inl ValueError"
    by (simp add: parse_loop.simps [of lines i] read_header_eq)
qed

text \<open>
  The claim as stated fails: a well-formed header of the basin \<^verbatim>\<open>EP\<close> with one data line
  is not taken as a header, and no record is emitted.
\<close>

theorem header_by_prefix_counterexample:
  "parse_hurdat2 [ex_header_ep, ex_data] = Inr []"
  by code_simp

theorem header_by_prefix_witness:
  "\<not> startswith (strip ex_header_ep) ''AL'' \<and> \<not> startswith (strip ex_data) ''AL'' \<and>
   parse_hurdat2 [ex_header_ep, ex_data] = Inr []"
proof -
  have "\<not> startswith (strip ex_header_ep) ''AL''" and "\<not> startswith (strip ex_data) ''AL''"
    by code_simp+
  with header_by_prefix [of "[ex_header_ep, ex_data]"] show ?thesis
    by simp
qed

text \<open>
  Claim C4, as the code has it. When a header declares more entries than lines remain,
  the assembler fails: with IndexError, raised by \<^verbatim>\<open>lines[i]\<close> past the end, when the
  coordinates of all remaining lines are float literals, and with ValueError otherwise.
\<close>

theorem truncated_block_fails:
  assumes "i < length lines" and "startswith (strip (lines ! i)) ''AL''"
    and "int_of_str (strip (slice 33 36 (strip (lines ! i)))) = Some n"
    and "int (length lines - Suc i) < n"
  shows "parse_loop lines i data =
           Inl (if list_all convertible (drop (Suc i) lines) then IndexError else ValueError)"
proof -
  from assms(4) have "length lines - Suc i < nat n" by simp
  from for_loop_short [OF this] assms(1,2,3) show ?thesis
    by (simp add: parse_loop.simps [of lines i] read_header_eq)
qed

text \<open>
  The claim as stated fails in the kind of the error: a header declaring three entries
  followed by two data lines raises IndexError.
\<close>

theorem truncated_block_counterexample:
  "parse_hurdat2 [ex_header3, ex_data, ex_data] = Inl IndexError"
  by code_simp

theorem truncated_block_fails_witness:
  "parse_loop [ex_header3, ex_data, ex_data] 0 [] = Inl IndexError"
proof -
  have 1: "startswith (strip ([ex_header3, ex_data, ex_data] ! 0)) ''AL''" by code_simp
  have 2: "int_of_str (strip (slice 33 36 (strip ([ex_header3, ex_data, ex_data] ! 0)))) = Some 3"
    by code_simp
  have 3: "list_all convertible (drop (Suc 0) [ex_header3, ex_data, ex_data])" by code_simp
  from truncated_block_fails [OF _ 1 2, of "[]"] 3 show ?thesis by simp
qed

section \<open>Properties of the casts\<close>

lemma traverse_iff: "traverse f xs = Inr ys \<longleftrightarrow> list_all2 (\<lambda>x y. f x = Inr y) xs ys"
proof (induction xs arbitrary: ys)
  case Nil
  then show ?case by auto
next
  case (Cons x xs)
  show ?case
  proof (cases ys)
    case Nil
    then show ?thesis by (simp split: sum.splits)
  next
    case (Cons y ys')
    then show ?thesis using Cons.IH [of ys'] by (auto split: sum.splits)
  qed
qed

lemma traverse_succeeds:
  "\<forall>x\<in>set xs. \<exists>y. f x = Inr y \<Longrightarrow> \<exists>ys. traverse f xs = Inr ys"
  by (induction xs) auto

lemma set_columns: "set (columns df) = (\<Union>r\<in>set df. fst ` set r)"
  by (auto simp: columns_def)

lemma cell_update: "cell (AList.update k v r) k' = (if k' = k then v else cell r k')"
  by (simp add: cell_def update_conv')

lemma cast_cell_iff: "cast_cell (col, c) r = Inr r' \<longleftrightarrow> cast_step col c r r'"
  by (auto simp: cast_cell_def cast_step_def split: sum.splits)

lemma cast_column_iff:
  "cast_column (col, c) df = Inr df' \<longleftrightarrow>
     col \<in> set (columns df) \<and> list_all2 (cast_step col c) df df'"
  by (simp add: cast_column_def traverse_iff cast_cell_iff)

lemma cast_columns_rel:
  "cast_columns ccs df = Inr df' \<Longrightarrow> distinct (map fst ccs) \<Longrightarrow> list_all2 (cast_rel ccs) df df'"
proof (induction ccs arbitrary: df)
  case Nil
  then show ?case by (simp add: cast_rel_def list_all2_refl)
next
  case (Cons cc ccs)
  obtain col c where cc: "cc = (col, c)" by (cases cc)
  from Cons.prems(1) obtain df1 where 1: "cast_column (col, c) df = Inr df1"
    and 2: "cast_columns ccs df1 = Inr df'"
    by (auto simp: cc split: sum.splits)
  from Cons.prems(2) have d: "distinct (map fst ccs)" and nc: "map_of ccs col = None"
    by (auto simp: cc map_of_eq_None_iff)
  from 1 have s: "list_all2 (cast_step col c) df df1" by (simp add: cast_column_iff)
  have t: "list_all2 (cast_rel ccs) df1 df'" by (rule Cons.IH [OF 2 d])
  have "cast_rel (cc # ccs) a b2" if "cast_step col c a b" and "cast_rel ccs b b2" for a b b2
  proof -
    from that(1) obtain v where v: "cast_value c (cell a col) = Inr v" and b: "b = AList.update col v a"
      by (auto simp: cast_step_def)
    have k: "fst ` set a \<subseteq> fst ` set b" unfolding b by (auto simp: dom_update)
    from that(2) k have k2: "fst ` set a \<subseteq> fst ` set b2" by (auto simp: cast_rel_def)
    have bv: "cell b2 col = v" using that(2) nc by (simp add: cast_rel_def b cell_update)
    have ba: "cell b x = cell a x" if "x \<noteq> col" for x using that by (simp add: b cell_update)
    from that(2) have r1: "map_of ccs x = None \<Longrightarrow> cell b2 x = cell b x"
      and r2: "map_of ccs x = Some c' \<Longrightarrow> cast_value c' (cell b x) = Inr (cell b2 x)" for x c'
      by (simp_all add: cast_rel_def)
    show ?thesis
      unfolding cast_rel_def
    proof (intro conjI allI impI)
      show "fst ` set a \<subseteq> fst ` set b2" by (rule k2)
    next
      fix x assume "map_of (cc # ccs) x = None"
      then have "x \<noteq> col" and "map_of ccs x = None" by (auto simp: cc split: if_splits)
      then show "cell b2 x = cell a x" using r1 ba by simp
    next
      fix x c' assume m: "map_of (cc # ccs) x = Some c'"
      show "cast_value c' (cell a x) = Inr (cell b2 x)"
      proof (cases "x = col")
        case True
        with m have "c' = c" by (simp add: cc)
        with True v bv show ?thesis by simp
      next
        case False
        with m have "map_of ccs x = Some c'" by (simp add: cc)
        from r2 [OF this] ba [OF False] show ?thesis by simp
      qed
    qed
  qed
  from list_all2_trans [of "cast_step col c" "cast_rel ccs" "cast_rel (cc # ccs)", OF this s t]
  show ?case .
qed

lemma cast_columns_succeeds:
  assumes "distinct (map fst ccs)" and "fst ` set ccs \<subseteq> set (columns df)"
    and "\<forall>r\<in>set df. \<forall>(col, c)\<in>set ccs. \<exists>v. cast_value c (cell r col) = Inr v"
  shows "\<exists>df'. cast_columns ccs df = Inr df'"
  using assms
proof (induction ccs arbitrary: df)
  case Nil
  then show ?case by simp
next
  case (Cons cc ccs)
  obtain col c where cc: "cc = (col, c)" by (cases cc)
  from Cons.prems(3) have "\<forall>r\<in>set df. \<exists>r'. cast_cell (col, c) r = Inr r'"
    by (auto simp: cc cast_cell_iff cast_step_def)
  then obtain df1 where tr: "traverse (cast_cell (col, c)) df = Inr df1"
    using traverse_succeeds by blast
  with Cons.prems(2) have 1: "cast_column (col, c) df = Inr df1"
    by (simp add: cast_column_def cc)
  from tr have s: "list_all2 (cast_step col c) df df1" by (simp add: traverse_iff cast_cell_iff)
  from Cons.prems(1) have d: "distinct (map fst ccs)" and nc: "col \<notin> fst ` set ccs"
    by (auto simp: cc)
  have sub: "set (columns df) \<subseteq> set (columns df1)"
  proof
    fix k assume "k \<in> set (columns df)"
    then obtain r where r: "r \<in> set df" and k: "k \<in> fst ` set r" by (auto simp: set_columns)
    from r obtain i where i: "i < length df" and ri: "r = df ! i" by (auto simp: in_set_conv_nth)
    from s i have "cast_step col c (df ! i) (df1 ! i)" and "i < length df1"
      by (auto simp: list_all2_conv_all_nth)
    then obtain v where "df1 ! i = AList.update col v (df ! i)" and i1: "i < length df1"
      by (auto simp: cast_step_def)
    then have "fst ` set (df1 ! i) = {col} \<union> fst ` set (df ! i)"
      by (simp only: dom_update)
    with k ri i1 have "k \<in> fst ` set (df1 ! i)" and "df1 ! i \<in> set df1"
      by simp_all
    then show "k \<in> set (columns df1)" unfolding set_columns by blast
  qed
  have ok: "\<forall>r\<in>set df1. \<forall>(col', c')\<in>set ccs. \<exists>v. cast_value c' (cell r col') = Inr v"
  proof (intro ballI)
    fix r' x assume r': "r' \<in> set df1" and x: "x \<in> set ccs"
    obtain col' c' where xx: "x = (col', c')" by (cases x)
    from r' obtain i where i: "i < length df1" and ri: "r' = df1 ! i" by (auto simp: in_set_conv_nth)
    from s i have st: "cast_step col c (df ! i) (df1 ! i)" and il: "i < length df"
      by (auto simp: list_all2_conv_all_nth)
    from x nc xx have ne: "col' \<noteq> col" by force
    from st ne have "cell r' col' = cell (df ! i) col'"
      by (auto simp: ri cast_step_def cell_update)
    moreover have "\<exists>v. cast_value c' (cell (df ! i) col') = Inr v"
    proof -
      from il have "df ! i \<in> set df" by simp
      moreover from x xx have "(col', c') \<in> set (cc # ccs)" by simp
      ultimately show ?thesis using Cons.prems(3) by fast
    qed
    ultimately show "case x of (col', c') \<Rightarrow> \<exists>v. cast_value c' (cell r' col') = Inr v"
      by (simp add: xx)
  qed
  from Cons.prems(2) sub have "fst ` set ccs \<subseteq> set (columns df1)" by auto
  from Cons.IH [OF d this ok] 1 show ?case by (simp add: cc)
qed
lemma distinct_cast_table: "distinct (map fst cast_table)"
  by (simp add: cast_table_def)

lemma type_cast_rel:
  "type_cast df = Inr df' \<Longrightarrow> list_all2 (cast_rel cast_table) df df'"
  unfolding type_cast_def by (rule cast_columns_rel [OF _ distinct_cast_table])

lemma type_cast_length: "type_cast df = Inr df' \<Longrightarrow> length df' = length df"
  by (drule type_cast_rel) (simp add: list_all2_lengthD)

lemma type_cast_cell:
  "type_cast df = Inr df' \<Longrightarrow> i < length df \<Longrightarrow> map_of cast_table col = Some c \<Longrightarrow>
   cast_value c (cell (df ! i) col) = Inr (cell (df' ! i) col)"
  by (drule type_cast_rel) (simp add: list_all2_conv_all_nth cast_rel_def)

lemma type_cast_keys:
  "type_cast df = Inr df' \<Longrightarrow> i < length df \<Longrightarrow> fst ` set (df ! i) \<subseteq> fst ` set (df' ! i)"
  by (drule type_cast_rel) (simp add: list_all2_conv_all_nth cast_rel_def)


lemma digits_val_snoc: "digits_val (ds @ [c]) = 10 * digits_val ds + digit_val c"
  by (simp add: digits_val_def)

lemma digit_val_digit_char: "d < 10 \<Longrightarrow> digit_val (digit_char d) = d"
  by (simp add: digit_val_def digit_char_def of_char_of)

lemma digits_val_str_nat: "digits_val (str_nat n) = n"
proof (induction n rule: str_nat.induct)
  case (1 n)
  show ?case
  proof (cases "n < 10")
    case True
    then show ?thesis
      by (simp add: str_nat.simps [of n] digits_val_def digit_val_digit_char)
  next
    case False
    with "1.IH" have "digits_val (str_nat (n div 10)) = n div 10" by simp
    with False show ?thesis
      by (simp add: str_nat.simps [of n] digits_val_snoc digit_val_digit_char)
  qed
qed

lemma digit_char_not_minus: "d < 10 \<Longrightarrow> digit_char d \<noteq> CHR ''-''"
proof
  assume d: "d < 10" and "digit_char d = CHR ''-''"
  then have "(of_char (digit_char d) :: nat) = of_char CHR ''-''" by simp
  with d show False by (simp add: digit_char_def of_char_of)
qed

lemma str_nat_no_minus: "CHR ''-'' \<notin> set (str_nat n)"
proof (induction n rule: str_nat.induct)
  case (1 n)
  show ?case
  proof (cases "n < 10")
    case True
    then show ?thesis using digit_char_not_minus [of n] by (auto simp: str_nat.simps [of n])
  next
    case False
    with "1.IH" have "CHR ''-'' \<notin> set (str_nat (n div 10))" by simp
    moreover have "digit_char (n mod 10) \<noteq> CHR ''-''" by (rule digit_char_not_minus) simp
    ultimately show ?thesis using False by (auto simp: str_nat.simps [of n])
  qed
qed

lemma str_int_inj: "str_int a = str_int b \<Longrightarrow> a = b"
proof -
  assume eq: "str_int a = str_int b"
  have nat_inj: "str_nat m = str_nat n \<Longrightarrow> m = n" for m n
    using digits_val_str_nat by metis
  show "a = b"
  proof (cases "a < 0")
    case an: True
    show ?thesis
    proof (cases "b < 0")
      case True
      with an eq have "str_nat (nat (- a)) = str_nat (nat (- b))" by (simp add: str_int_def)
      then have "nat (- a) = nat (- b)" by (rule nat_inj)
      with an True show ?thesis by simp
    next
      case False
      with an eq have "CHR ''-'' # str_nat (nat (- a)) = str_nat (nat b)" by (simp add: str_int_def)
      then have "CHR ''-'' \<in> set (str_nat (nat b))" by (metis list.set_intros(1))
      with str_nat_no_minus show ?thesis by blast
    qed
  next
    case ap: False
    show ?thesis
    proof (cases "b < 0")
      case True
      with ap eq have "str_nat (nat a) = CHR ''-'' # str_nat (nat (- b))" by (simp add: str_int_def)
      then have "CHR ''-'' \<in> set (str_nat (nat a))" by (metis list.set_intros(1))
      with str_nat_no_minus show ?thesis by blast
    next
      case False
      with ap eq have "str_nat (nat a) = str_nat (nat b)" by (simp add: str_int_def)
      then have "nat a = nat b" by (rule nat_inj)
      with ap False show ?thesis by simp
    qed
  qed
qed

lemma assign_unique_id_iff:
  "assign_unique_id df = Inr df' \<longleftrightarrow>
     set [''Year'', ''CycloneID''] \<subseteq> set (columns df) \<and>
     list_all2 (\<lambda>r r'. \<exists>u. unique_id r = Inr u \<and> r' = AList.update ''UniqueID'' u r) df df'"
proof -
  have "((case unique_id r of Inl e \<Rightarrow> Inl e | Inr u \<Rightarrow> Inr (AList.update ''UniqueID'' u r)) = Inr r')
      \<longleftrightarrow> (\<exists>u. unique_id r = Inr u \<and> r' = AList.update ''UniqueID'' u r)" for r r'
    by (auto split: sum.splits)
  then have t: "traverse (\<lambda>r. case unique_id r of Inl e \<Rightarrow> Inl e
                               | Inr u \<Rightarrow> Inr (AList.update ''UniqueID'' u r)) df = Inr df'
      \<longleftrightarrow> list_all2 (\<lambda>r r'. \<exists>u. unique_id r = Inr u \<and> r' = AList.update ''UniqueID'' u r) df df'"
    by (simp only: traverse_iff)
  show ?thesis
  proof (cases "set [''Year'', ''CycloneID''] \<subseteq> set (columns df)")
    case True
    then show ?thesis unfolding assign_unique_id_def using t by (simp only: not_True_eq_False if_False simp_thms)
  next
    case False
    then show ?thesis unfolding assign_unique_id_def by (simp only: simp_thms if_True sum.distinct)
  qed
qed

lemma unique_id_int: 
  "cell r ''Year'' = VInt y \<Longrightarrow> cell r ''CycloneID'' = VStr c \<Longrightarrow>
   unique_id r = Inr (VStr (str_int y @ c))"
  by (simp add: unique_id_def cast_value_def)

lemma cast_table_Year: "map_of cast_table ''Year'' = Some AsInt"
  by (simp add: cast_table_def)

lemma cast_table_CycloneID: "map_of cast_table ''CycloneID'' = Some AsString"
  by (simp add: cast_table_def)


lemma cast_value_AsInt: "cast_value AsInt x = Inr v \<Longrightarrow> \<exists>n. v = VInt n"
  by (auto simp: cast_value_def split: sum.splits)

lemma cast_value_AsString: "cast_value AsString x = Inr v \<Longrightarrow> \<exists>s. v = VStr s"
  by (auto simp: cast_value_def split: pyval.splits)

lemma cell_present: "cell r k = VStr s \<Longrightarrow> k \<in> fst ` set r"
  by (auto simp: cell_def split: option.splits dest!: map_of_SomeD intro: rev_image_eqI)

lemma type_cast_succeeds:
  assumes "df \<noteq> []" and "\<forall>r\<in>set df. castable_row r"
  shows "\<exists>df'. type_cast df = Inr df'"
proof -
  from assms(1) obtain r where r: "r \<in> set df" by (cases df) auto
  with assms(2) have "fst ` set cast_table \<subseteq> fst ` set r"
    by (force simp: castable_row_def)
  with r have c: "fst ` set cast_table \<subseteq> set (columns df)"
    unfolding set_columns by blast
  from assms(2) have "\<forall>r\<in>set df. \<forall>(col, c)\<in>set cast_table. \<exists>v. cast_value c (cell r col) = Inr v"
    by (fastforce simp: castable_row_def)
  from cast_columns_succeeds [OF distinct_cast_table c this] show ?thesis
    by (simp add: type_cast_def)
qed












section \<open>Properties of the whole run\<close>

lemma cell_header_of:
  "cell (header_of raw n) k =
     (if k = ''Entries'' then VInt n
      else case map_of header_fields k of
             None \<Rightarrow> VFlt NaN
           | Some (a, b) \<Rightarrow> VStr (strip (slice a b (strip raw))))"
  unfolding header_of_def by (rule cell_header)

lemma cast_cells_str:
  "(col, c) \<in> set cast_table \<Longrightarrow> \<exists>s. cell (combined_row (header_of h n) raw) col = VStr s"
  by (auto simp: cast_table_def cell_combined_row data_fields_def cell_header_of header_fields_def)

lemma castable_combined_row:
  assumes "castable raw"
  shows "castable_row (combined_row (header_of h n) raw)"
  unfolding castable_row_def
proof (intro ballI, clarify, intro conjI)
  fix col c assume m: "(col, c) \<in> set cast_table"
  from cast_cells_str [OF m] obtain s where s: "cell (combined_row (header_of h n) raw) col = VStr s"
    by blast
  then show "col \<in> fst ` set (combined_row (header_of h n) raw)" by (rule cell_present)
  show "\<exists>v. cast_value c (cell (combined_row (header_of h n) raw) col) = Inr v"
  proof (cases c)
    case AsString
    with s show ?thesis by (simp add: cast_value_def)
  next
    case ToNumeric
    then show ?thesis by (simp add: cast_value_def)
  next
    case AsInt
    with m have "col \<in> {''Year'', ''Month'', ''Day'', ''Hours'', ''Minutes''}"
      by (auto simp: cast_table_def)
    with assms have "\<exists>k. int_of_str s = Some k"
      using s by (auto simp: castable_def cell_combined_row data_fields_def)
    with AsInt s show ?thesis by (auto simp: cast_value_def py_int_def)
  qed
qed

lemma map_const: "\<forall>x\<in>set xs. f x = c \<Longrightarrow> map f xs = replicate (length xs) c"
  by (induction xs) auto

lemma remdups_replicate_pos: "0 < n \<Longrightarrow> remdups (replicate n x) = [x]"
  by (induction n) (auto split: if_splits)

lemma count_list_replicate_same: "count_list (replicate n x) x = n"
  by (induction n) auto

lemma cell_present': "cell r k \<noteq> VFlt NaN \<Longrightarrow> k \<in> fst ` set r"
  by (auto simp: cell_def split: option.splits dest!: map_of_SomeD intro: rev_image_eqI)

lemma test_entries_count_uniform:
  assumes "df \<noteq> []" and "\<forall>r\<in>set df. row_key r = K \<and> cell r ''Entries'' = E"
    and "VFlt NaN \<notin> set K" and "E \<noteq> VFlt NaN"
  shows "test_entries_count df = Inr (\<not> ne_count (length df) E)"
proof -
  let ?n = "length df"
  from assms(1) have n: "0 < ?n" by simp
  from assms(2) have keys: "map row_key df = replicate ?n K" by (simp add: map_const)
  from assms(2) have tab: "map (\<lambda>r. (row_key r, cell r ''Entries'')) df = replicate ?n (K, E)"
    by (simp add: map_const)
  from assms(3) have f: "filter (\<lambda>k. VFlt NaN \<notin> set k) (replicate ?n K) = replicate ?n K"
    by simp
  have g: "grouped df = [(K, ?n)]"
    by (simp add: grouped_def keys f remdups_replicate_pos [OF n] count_list_replicate_same)
  have e: "entries_table df = [(K, E)]"
    by (simp add: entries_table_def tab remdups_replicate_pos [OF n])
  have m: "merged df = [(K, ?n, E)]" by (simp add: merged_def g e)
  have mm: "(mismatch df = []) = (\<not> ne_count ?n E)" by (simp add: mismatch_def m)
  from assms(1) obtain r where r: "r \<in> set df" by (cases df) auto
  have "k \<in> set (columns df)" if "cell r k \<noteq> VFlt NaN" for k
    using cell_present' [OF that] r unfolding set_columns by blast
  moreover have "\<forall>k\<in>set group_cols. cell r k \<noteq> VFlt NaN"
  proof
    fix k assume "k \<in> set group_cols"
    then have "cell r k \<in> set (row_key r)" by (simp add: row_key_def)
    with assms(2,3) r show "cell r k \<noteq> VFlt NaN" by auto
  qed
  moreover from assms(2,4) r have "cell r ''Entries'' \<noteq> VFlt NaN" by simp
  ultimately have "set (''Entries'' # group_cols) \<subseteq> set (columns df)" by auto
  then show ?thesis by (simp add: test_entries_count_def mm)
qed

lemma read_header_of:
  "int_of_str (strip (slice 33 36 (strip h))) = Some n \<Longrightarrow>
   read_header (strip h) = Inr (header_of h n, n)"
  by (simp add: read_header_eq header_of_def)

lemma single_block:
  assumes "startswith (strip h) ''AL''"
    and "int_of_str (strip (slice 33 36 (strip h))) = Some (int (length ds))"
    and "list_all convertible ds"
  shows "parse_hurdat2 (h # ds) = Inr (map (combined_row (header_of h (int (length ds)))) ds)"
proof -
  let ?lines = "h # ds" and ?hd = "header_of h (int (length ds))"
  have "for_loop ?hd ?lines (length ds) (Suc 0) [] =
          Inr (Suc 0 + length ds, [] @ map (combined_row ?hd) (take (length ds) (drop (Suc 0) ?lines)))"
    by (rule for_loop_ok) (simp_all add: assms(3))
  then have fl: "for_loop ?hd ?lines (length ds) (Suc 0) [] = Inr (Suc (length ds), map (combined_row ?hd) ds)"
    by simp
  have stop: "parse_loop ?lines (Suc (length ds)) data = Inr data" for data
    by (simp add: parse_loop.simps [of ?lines "Suc (length ds)"])
  show ?thesis
    unfolding parse_hurdat2_def
    by (simp add: parse_loop.simps [of ?lines 0] assms(1) read_header_of [OF assms(2)] fl stop)
qed

lemma row_key_combined:
  "row_key (combined_row (header_of h n) raw) =
     [VStr (strip (slice 0 2 (strip h))), VStr (strip (slice 2 4 (strip h))),
      VStr (data_field raw 0 4), VStr (strip (slice 18 28 (strip h)))]"
  by (simp add: row_key_def group_cols_def cell_combined_row data_fields_def cell_header_of
      header_fields_def)

lemma entries_combined: "cell (combined_row (header_of h n) raw) ''Entries'' = VInt n"
  by (simp add: cell_combined_row data_fields_def cell_header_of)

lemma year_combined: "cell (combined_row header raw) ''Year'' = VStr (data_field raw 0 4)"
  by (simp add: cell_combined_row data_fields_def)

lemma cyclone_combined: "cell (combined_row header raw) ''CycloneID'' = cell header ''CycloneID''"
  by (simp add: cell_combined_row data_fields_def)

lemma column_const:
  "\<forall>i<length df. cell (df ! i) c = v \<Longrightarrow> column c df = replicate (length df) v"
  unfolding column_def by (rule map_const) (auto simp: in_set_conv_nth)

subsection \<open>The removal of the single-valued columns\<close>

lemma map_of_filter_keys:
  "map_of (filter (\<lambda>kv. fst kv \<in> K) r) c = (if c \<in> K then map_of r c else None)"
  by (induction r) auto

lemma cell_filter_keys:
  "cell (filter (\<lambda>kv. fst kv \<in> K) r) c = (if c \<in> K then cell r c else VFlt NaN)"
  by (simp add: cell_def map_of_filter_keys)

lemma keys_filter_keys: "fst ` set (filter (\<lambda>kv. fst kv \<in> K) r) = fst ` set r \<inter> K"
  by force

lemma drop_constant_columns_eq:
  "drop_constant_columns df = map (filter (\<lambda>kv. fst kv \<in> kept df)) df"
  by (simp add: drop_constant_columns_def kept_def Let_def)

lemma length_drop_constant [simp]: "length (drop_constant_columns df) = length df"
  by (simp add: drop_constant_columns_eq)

lemma columns_drop_constant: "set (columns (drop_constant_columns df)) = kept df"
proof -
  have "set (columns (drop_constant_columns df)) = (\<Union>r\<in>set df. fst ` set r \<inter> kept df)"
    unfolding set_columns drop_constant_columns_eq by force
  also have "\<dots> = set (columns df) \<inter> kept df" by (auto simp: set_columns)
  also have "\<dots> = kept df" by (auto simp: kept_def)
  finally show ?thesis .
qed

lemma cell_drop_constant:
  "i < length df \<Longrightarrow>
   cell (drop_constant_columns df ! i) c = (if c \<in> kept df then cell (df ! i) c else VFlt NaN)"
  by (simp add: drop_constant_columns_eq cell_filter_keys)

lemma keys_drop_constant:
  "i < length df \<Longrightarrow> fst ` set (drop_constant_columns df ! i) = fst ` set (df ! i) \<inter> kept df"
  unfolding drop_constant_columns_eq by (simp only: nth_map keys_filter_keys)

lemma nunique_constant:
  assumes "\<forall>r\<in>set df. cell r c = v"
  shows "nunique df c \<le> 1"
proof -
  have "column c df = replicate (length df) v"
    unfolding column_def using assms by (simp add: map_const)
  then have "set (map canon (filter (\<lambda>v. v \<noteq> VFlt NaN) (column c df))) \<subseteq> {canon v}"
    by auto
  then have "card (set (map canon (filter (\<lambda>v. v \<noteq> VFlt NaN) (column c df)))) \<le> card {canon v}"
    by (intro card_mono) auto
  then show ?thesis by (simp add: nunique_def length_remdups_card_conv)
qed

lemma nunique_two:
  assumes "r1 \<in> set df" and "r2 \<in> set df"
    and "cell r1 c = VStr s1" and "cell r2 c = VStr s2" and "s1 \<noteq> s2"
  shows "1 < nunique df c"
proof -
  let ?vs = "map canon (filter (\<lambda>v. v \<noteq> VFlt NaN) (column c df))"
  from assms(1,3) have "VStr s1 \<in> set ?vs" by (force simp: column_def canon_def)
  moreover from assms(2,4) have "VStr s2 \<in> set ?vs" by (force simp: column_def canon_def)
  ultimately have "{VStr s1, VStr s2} \<subseteq> set ?vs" by simp
  then have "card {VStr s1, VStr s2} \<le> card (set ?vs)" by (intro card_mono) auto
  with assms(5) show ?thesis by (simp add: nunique_def length_remdups_card_conv)
qed

lemma not_kept_constant: "\<forall>r\<in>set df. cell r c = v \<Longrightarrow> c \<notin> kept df"
  using nunique_constant [of df c v] by (simp add: kept_def)

lemma type_cast_pruned_KeyError:
  "''CycloneID'' \<notin> kept df \<Longrightarrow> type_cast (drop_constant_columns df) = Inl KeyError"
  by (simp add: type_cast_def cast_table_def cast_column_def columns_drop_constant)

lemma normalize_KeyError:
  "\<forall>r\<in>set df. cell r ''CycloneID'' = v \<Longrightarrow> normalize df = Inl KeyError"
proof -
  assume "\<forall>r\<in>set df. cell r ''CycloneID'' = v"
  then have "''CycloneID'' \<notin> kept df" by (rule not_kept_constant)
  then have "type_cast (drop_constant_columns df) = Inl KeyError"
    by (rule type_cast_pruned_KeyError)
  then show ?thesis by (simp add: normalize_def)
qed

subsection \<open>The cells after the casts\<close>

lemma cast_column_columns:
  assumes "cast_column (col, c) df = Inr df1"
  shows "set (columns df1) = set (columns df)"
proof -
  from assms have col: "col \<in> set (columns df)" and s: "list_all2 (cast_step col c) df df1"
    by (simp_all add: cast_column_iff)
  from s have len: "length df1 = length df" by (simp add: list_all2_lengthD)
  have keys: "fst ` set (df1 ! i) = {col} \<union> fst ` set (df ! i)" if "i < length df" for i
  proof -
    from s that obtain v where "df1 ! i = AList.update col v (df ! i)"
      by (auto simp: list_all2_conv_all_nth cast_step_def)
    then show ?thesis by (simp only: dom_update)
  qed
  show ?thesis
  proof (intro set_eqI iffI)
    fix k assume "k \<in> set (columns df1)"
    then obtain r where "r \<in> set df1" and kr: "k \<in> fst ` set r"
      unfolding set_columns by blast
    then obtain i where "i < length df1" and "r = df1 ! i" by (metis in_set_conv_nth)
    with kr have "i < length df1" and "k \<in> fst ` set (df1 ! i)" by simp_all
    with keys [of i] len have "k = col \<or> k \<in> fst ` set (df ! i)" and "df ! i \<in> set df" by auto
    with col show "k \<in> set (columns df)" unfolding set_columns by blast
  next
    fix k assume "k \<in> set (columns df)"
    then obtain r where "r \<in> set df" and kr: "k \<in> fst ` set r"
      unfolding set_columns by blast
    then obtain i where "i < length df" and "r = df ! i" by (metis in_set_conv_nth)
    with kr have "i < length df" and "k \<in> fst ` set (df ! i)" by simp_all
    with keys [of i] len have "k \<in> fst ` set (df1 ! i)" and "df1 ! i \<in> set df1" by auto
    then show "k \<in> set (columns df1)" unfolding set_columns by blast
  qed
qed

lemma cast_columns_columns:
  "cast_columns ccs df = Inr df' \<Longrightarrow>
   fst ` set ccs \<subseteq> set (columns df) \<and> set (columns df') = set (columns df)"
proof (induction ccs arbitrary: df)
  case Nil
  then show ?case by simp
next
  case (Cons cc ccs)
  obtain col c where cc: "cc = (col, c)" by (cases cc)
  from Cons.prems obtain df1 where 1: "cast_column (col, c) df = Inr df1"
    and 2: "cast_columns ccs df1 = Inr df'"
    by (auto simp: cc split: sum.splits)
  from 1 have "col \<in> set (columns df)" by (simp add: cast_column_iff)
  with Cons.IH [OF 2] cast_column_columns [OF 1] show ?case by (simp add: cc)
qed

lemma type_cast_columns:
  "type_cast df = Inr df' \<Longrightarrow>
   fst ` set cast_table \<subseteq> set (columns df) \<and> set (columns df') = set (columns df)"
  unfolding type_cast_def by (rule cast_columns_columns)

lemma add_datetime_iff:
  "add_datetime df = Inr df' \<longleftrightarrow>
     set [''Year'', ''Month'', ''Day'', ''Hours'', ''Minutes''] \<subseteq> set (columns df) \<and>
     list_all2 datetime_step df df'"
proof -
  have "((case to_datetime r of Inl e \<Rightarrow> Inl e | Inr t \<Rightarrow> Inr (AList.update ''Datetime'' t r)) = Inr r')
      \<longleftrightarrow> datetime_step r r'" for r r'
    by (auto simp: datetime_step_def split: sum.splits)
  then have t: "traverse (\<lambda>r. case to_datetime r of Inl e \<Rightarrow> Inl e
                               | Inr t \<Rightarrow> Inr (AList.update ''Datetime'' t r)) df = Inr df'
      \<longleftrightarrow> list_all2 datetime_step df df'"
    by (simp only: traverse_iff)
  show ?thesis
  proof (cases "set [''Year'', ''Month'', ''Day'', ''Hours'', ''Minutes''] \<subseteq> set (columns df)")
    case True
    then show ?thesis unfolding add_datetime_def using t
      by (simp only: not_True_eq_False if_False simp_thms)
  next
    case False
    then show ?thesis unfolding add_datetime_def by (simp only: simp_thms if_True sum.distinct)
  qed
qed

lemma assign_unique_id_key_step:
  "assign_unique_id df = Inr df' \<longleftrightarrow>
     set [''Year'', ''CycloneID''] \<subseteq> set (columns df) \<and> list_all2 key_step df df'"
  unfolding key_step_def by (rule assign_unique_id_iff)

lemma datetime_step_cell:
  "datetime_step r r' \<Longrightarrow> c \<noteq> ''Datetime'' \<Longrightarrow> cell r' c = cell r c"
  by (auto simp: datetime_step_def cell_update)

lemma normalize_steps:
  assumes "normalize df = Inr df'"
  obtains d2 d3 where "type_cast (drop_constant_columns df) = Inr d2"
    and "add_datetime d2 = Inr d3" and "assign_unique_id d3 = Inr df'"
  using assms by (auto simp: normalize_def split: sum.splits)

lemma normalize_key:
  assumes "normalize df = Inr df'"
  shows "length df' = length df"
    and "i < length df \<Longrightarrow> cell (df ! i) ''CycloneID'' = VStr c \<Longrightarrow>
         cell (df ! i) ''Year'' = VStr ys \<Longrightarrow> int_of_str ys = Some y \<Longrightarrow>
         cell (df' ! i) ''UniqueID'' = VStr (str_int y @ c)"
proof -
  from assms obtain d2 d3 where tc: "type_cast (drop_constant_columns df) = Inr d2"
    and ad: "add_datetime d2 = Inr d3" and au: "assign_unique_id d3 = Inr df'"
    by (rule normalize_steps)
  let ?d1 = "drop_constant_columns df"
  have l2: "length d2 = length df" using type_cast_length [OF tc] by simp
  from ad have s3: "list_all2 datetime_step d2 d3" by (simp add: add_datetime_iff)
  then have l3: "length d3 = length df" using l2 by (simp add: list_all2_lengthD)
  from au have s4: "list_all2 key_step d3 df'" by (simp add: assign_unique_id_key_step)
  then show len: "length df' = length df" using l3 by (simp add: list_all2_lengthD)
  assume i: "i < length df" and c: "cell (df ! i) ''CycloneID'' = VStr c"
    and ys: "cell (df ! i) ''Year'' = VStr ys" and y: "int_of_str ys = Some y"
  from type_cast_columns [OF tc] have "fst ` set cast_table \<subseteq> kept df"
    by (simp add: columns_drop_constant)
  moreover have "''Year'' \<in> fst ` set cast_table" "''CycloneID'' \<in> fst ` set cast_table"
    by (simp_all add: cast_table_def)
  ultimately have k: "''Year'' \<in> kept df" "''CycloneID'' \<in> kept df" by auto
  from i have i1: "i < length ?d1" by simp
  from k i c ys have c1: "cell (?d1 ! i) ''CycloneID'' = VStr c" and y1: "cell (?d1 ! i) ''Year'' = VStr ys"
    by (simp_all add: cell_drop_constant)
  from type_cast_cell [OF tc i1 cast_table_Year] y1 y have y2: "cell (d2 ! i) ''Year'' = VInt y"
    by (simp add: cast_value_def py_int_def)
  from type_cast_cell [OF tc i1 cast_table_CycloneID] c1 have c2: "cell (d2 ! i) ''CycloneID'' = VStr c"
    by (simp add: cast_value_def)
  from s3 i l2 have "datetime_step (d2 ! i) (d3 ! i)" by (simp add: list_all2_conv_all_nth)
  with y2 c2 have y3: "cell (d3 ! i) ''Year'' = VInt y" and c3: "cell (d3 ! i) ''CycloneID'' = VStr c"
    by (simp_all add: datetime_step_cell)
  from s4 i l3 obtain u where "unique_id (d3 ! i) = Inr u" and "df' ! i = AList.update ''UniqueID'' u (d3 ! i)"
    by (auto simp: list_all2_conv_all_nth key_step_def)
  with unique_id_int [OF y3 c3] show "cell (df' ! i) ''UniqueID'' = VStr (str_int y @ c)"
    by (simp add: cell_update)
qed

lemma valid_date_range: "valid_date y m d \<Longrightarrow> 0 \<le> m \<and> m \<le> 99 \<and> 0 \<le> d \<and> d \<le> 99"
  by (auto simp: valid_date_def days_in_month_def split: if_splits)

lemma cast_table_ints:
  "map_of cast_table ''Month'' = Some AsInt" "map_of cast_table ''Day'' = Some AsInt"
  "map_of cast_table ''Hours'' = Some AsInt" "map_of cast_table ''Minutes'' = Some AsInt"
  by (simp_all add: cast_table_def)

lemma cast_value_AsInt_eq: "py_int v = Inr n \<Longrightarrow> cast_value AsInt v = Inr w \<Longrightarrow> w = VInt n"
  by (simp add: cast_value_def)

lemma in_columns: "r \<in> set df \<Longrightarrow> cell r k \<noteq> VFlt NaN \<Longrightarrow> k \<in> set (columns df)"
  using cell_present' unfolding set_columns by blast

lemma normalize_succeeds:
  assumes ne: "df \<noteq> []" and kp: "fst ` set cast_table \<subseteq> kept df"
    and cr: "\<forall>r\<in>set df. castable_row r" and dt: "\<forall>r\<in>set df. datable r"
  shows "\<exists>df'. normalize df = Inr df'"
proof -
  let ?d1 = "drop_constant_columns df"
  have c1: "cell (?d1 ! i) col = cell (df ! i) col" if "i < length df" and "col \<in> fst ` set cast_table" for i col
    using that kp by (auto simp: cell_drop_constant)
  have "\<forall>r\<in>set ?d1. castable_row r"
  proof
    fix r assume "r \<in> set ?d1"
    then obtain i where i: "i < length df" and r: "r = ?d1 ! i"
      by (metis in_set_conv_nth length_drop_constant)
    from i cr have c: "castable_row (df ! i)" by simp
    show "castable_row r"
      unfolding castable_row_def
    proof (intro ballI, clarify, intro conjI)
      fix col c' assume m: "(col, c') \<in> set cast_table"
      then have mc: "col \<in> fst ` set cast_table" by force
      from c m have k: "col \<in> fst ` set (df ! i)" and v: "\<exists>v. cast_value c' (cell (df ! i) col) = Inr v"
        by (auto simp: castable_row_def)
      from k mc kp show "col \<in> fst ` set r" unfolding r by (auto simp: keys_drop_constant [OF i])
      from v c1 [OF i mc] show "\<exists>v. cast_value c' (cell r col) = Inr v" by (simp add: r)
    qed
  qed
  moreover from ne have "?d1 \<noteq> []" by (simp add: drop_constant_columns_eq)
  ultimately obtain d2 where tc: "type_cast ?d1 = Inr d2" using type_cast_succeeds by blast
  have l2: "length d2 = length df" using type_cast_length [OF tc] by simp
  have ints: "\<exists>y m d h mi. cell (d2 ! i) ''Year'' = VInt y \<and> cell (d2 ! i) ''Month'' = VInt m \<and>
      cell (d2 ! i) ''Day'' = VInt d \<and> cell (d2 ! i) ''Hours'' = VInt h \<and>
      cell (d2 ! i) ''Minutes'' = VInt mi \<and>
      1678 \<le> y \<and> y \<le> 2261 \<and> valid_date y m d \<and> 0 \<le> h \<and> h \<le> 23 \<and> 0 \<le> mi \<and> mi \<le> 59"
    if i: "i < length df" for i
  proof -
    from i dt have "datable (df ! i)" by simp
    then obtain y m d h mi where p: "py_int (cell (df ! i) ''Year'') = Inr y"
      "py_int (cell (df ! i) ''Month'') = Inr m" "py_int (cell (df ! i) ''Day'') = Inr d"
      "py_int (cell (df ! i) ''Hours'') = Inr h" "py_int (cell (df ! i) ''Minutes'') = Inr mi"
      and rng: "1678 \<le> y \<and> y \<le> 2261 \<and> valid_date y m d \<and> 0 \<le> h \<and> h \<le> 23 \<and> 0 \<le> mi \<and> mi \<le> 59"
      unfolding datable_def by blast
    from i have i1: "i < length ?d1" by simp
    have mem: "''Year'' \<in> fst ` set cast_table" "''Month'' \<in> fst ` set cast_table"
      "''Day'' \<in> fst ` set cast_table" "''Hours'' \<in> fst ` set cast_table"
      "''Minutes'' \<in> fst ` set cast_table"
      by (simp_all add: cast_table_def)
    have "cell (d2 ! i) ''Year'' = VInt y"
      using type_cast_cell [OF tc i1 cast_table_Year] p(1) c1 [OF i mem(1)]
      by (simp add: cast_value_AsInt_eq)
    moreover have "cell (d2 ! i) ''Month'' = VInt m"
      using type_cast_cell [OF tc i1 cast_table_ints(1)] p(2) c1 [OF i mem(2)]
      by (simp add: cast_value_AsInt_eq)
    moreover have "cell (d2 ! i) ''Day'' = VInt d"
      using type_cast_cell [OF tc i1 cast_table_ints(2)] p(3) c1 [OF i mem(3)]
      by (simp add: cast_value_AsInt_eq)
    moreover have "cell (d2 ! i) ''Hours'' = VInt h"
      using type_cast_cell [OF tc i1 cast_table_ints(3)] p(4) c1 [OF i mem(4)]
      by (simp add: cast_value_AsInt_eq)
    moreover have "cell (d2 ! i) ''Minutes'' = VInt mi"
      using type_cast_cell [OF tc i1 cast_table_ints(4)] p(5) c1 [OF i mem(5)]
      by (simp add: cast_value_AsInt_eq)
    ultimately show ?thesis using rng by blast
  qed
  have cyc: "\<exists>c. cell (d2 ! i) ''CycloneID'' = VStr c" if i: "i < length df" for i
  proof -
    from i have i1: "i < length ?d1" by simp
    from cast_value_AsString [OF type_cast_cell [OF tc i1 cast_table_CycloneID]] show ?thesis .
  qed
  have "\<forall>r\<in>set d2. \<exists>r'. (case to_datetime r of Inl e \<Rightarrow> Inl e
                              | Inr t \<Rightarrow> Inr (AList.update ''Datetime'' t r)) = Inr r'"
  proof
    fix r assume "r \<in> set d2"
    then obtain i where i: "i < length df" and r: "r = d2 ! i" using l2 by (metis in_set_conv_nth)
    from ints [OF i] obtain y m d h mi where "cell r ''Year'' = VInt y" "cell r ''Month'' = VInt m"
      "cell r ''Day'' = VInt d" "cell r ''Hours'' = VInt h" "cell r ''Minutes'' = VInt mi"
      "1678 \<le> y \<and> y \<le> 2261 \<and> valid_date y m d \<and> 0 \<le> h \<and> h \<le> 23 \<and> 0 \<le> mi \<and> mi \<le> 59"
      unfolding r by blast
    then show "\<exists>r'. (case to_datetime r of Inl e \<Rightarrow> Inl e
                      | Inr t \<Rightarrow> Inr (AList.update ''Datetime'' t r)) = Inr r'"
      using valid_date_range [of y m d] by (simp add: to_datetime_def)
  qed
  from traverse_succeeds [OF this] obtain d3 where
    tr: "traverse (\<lambda>r. case to_datetime r of Inl e \<Rightarrow> Inl e
                        | Inr t \<Rightarrow> Inr (AList.update ''Datetime'' t r)) d2 = Inr d3" by blast
  from ne have 0: "0 < length df" by simp
  have cols2: "set [''Year'', ''Month'', ''Day'', ''Hours'', ''Minutes''] \<subseteq> set (columns d2)"
  proof -
    from 0 l2 have "d2 ! 0 \<in> set d2" by simp
    moreover from ints [OF 0] have "cell (d2 ! 0) ''Year'' \<noteq> VFlt NaN" "cell (d2 ! 0) ''Month'' \<noteq> VFlt NaN"
      "cell (d2 ! 0) ''Day'' \<noteq> VFlt NaN" "cell (d2 ! 0) ''Hours'' \<noteq> VFlt NaN"
      "cell (d2 ! 0) ''Minutes'' \<noteq> VFlt NaN" by auto
    ultimately show ?thesis by (simp add: in_columns)
  qed
  with tr have ad: "add_datetime d2 = Inr d3" by (simp add: add_datetime_def)
  then have s3: "list_all2 datetime_step d2 d3" by (simp add: add_datetime_iff)
  then have l3: "length d3 = length df" using l2 by (simp add: list_all2_lengthD)
  have row3: "\<exists>y c. cell (d3 ! i) ''Year'' = VInt y \<and> cell (d3 ! i) ''CycloneID'' = VStr c"
    if i: "i < length df" for i
  proof -
    from s3 i l2 have "datetime_step (d2 ! i) (d3 ! i)" by (simp add: list_all2_conv_all_nth)
    then have "cell (d3 ! i) ''Year'' = cell (d2 ! i) ''Year''"
      and "cell (d3 ! i) ''CycloneID'' = cell (d2 ! i) ''CycloneID''"
      by (simp_all add: datetime_step_cell)
    with ints [OF i] cyc [OF i] show ?thesis by auto
  qed
  have cols3: "set [''Year'', ''CycloneID''] \<subseteq> set (columns d3)"
  proof -
    from 0 l3 have "d3 ! 0 \<in> set d3" by simp
    moreover from row3 [OF 0] have "cell (d3 ! 0) ''Year'' \<noteq> VFlt NaN" "cell (d3 ! 0) ''CycloneID'' \<noteq> VFlt NaN"
      by auto
    ultimately show ?thesis by (simp add: in_columns)
  qed
  have "\<forall>r\<in>set d3. \<exists>r'. (case unique_id r of Inl e \<Rightarrow> Inl e
                              | Inr u \<Rightarrow> Inr (AList.update ''UniqueID'' u r)) = Inr r'"
  proof
    fix r assume "r \<in> set d3"
    then obtain i where "i < length df" and "r = d3 ! i" using l3 by (metis in_set_conv_nth)
    with row3 [of i] obtain y c where "cell r ''Year'' = VInt y" and "cell r ''CycloneID'' = VStr c"
      by blast
    then show "\<exists>r'. (case unique_id r of Inl e \<Rightarrow> Inl e
                      | Inr u \<Rightarrow> Inr (AList.update ''UniqueID'' u r)) = Inr r'"
      by (simp add: unique_id_int)
  qed
  from traverse_succeeds [OF this] cols3 obtain df' where "assign_unique_id d3 = Inr df'"
    by (auto simp: assign_unique_id_def)
  with tc ad show ?thesis by (simp add: normalize_def)
qed

lemma block_step:
  assumes "i < length lines" and "startswith (strip (lines ! i)) ''AL''"
    and "int_of_str (strip (slice 33 36 (strip (lines ! i)))) = Some (int n)"
    and "Suc i + n \<le> length lines"
    and "list_all convertible (take n (drop (Suc i) lines))"
  shows "parse_loop lines i data =
           parse_loop lines (Suc i + n)
             (data @ map (combined_row (header_of (lines ! i) (int n))) (take n (drop (Suc i) lines)))"
proof -
  have "for_loop (header_of (lines ! i) (int n)) lines n (Suc i) data =
          Inr (Suc i + n, data @ map (combined_row (header_of (lines ! i) (int n)))
                                   (take n (drop (Suc i) lines)))"
    by (rule for_loop_ok [OF assms(4,5)])
  with assms(1,2) show ?thesis
    by (simp add: parse_loop.simps [of lines i] read_header_of [OF assms(3)])
qed

lemma parse_loop_end: "length lines \<le> i \<Longrightarrow> parse_loop lines i data = Inr data"
  by (simp add: parse_loop.simps [of lines i])

lemma test_entries_count_returns:
  assumes "df \<noteq> []" and "\<forall>r\<in>set df. \<forall>k\<in>set (''Entries'' # group_cols). cell r k \<noteq> VFlt NaN"
  shows "\<exists>b. test_entries_count df = Inr b"
proof -
  from assms(1) obtain r where r: "r \<in> set df" by (cases df) auto
  with assms(2) have "\<forall>k\<in>set (''Entries'' # group_cols). k \<in> set (columns df)"
    using in_columns by blast
  then have "set (''Entries'' # group_cols) \<subseteq> set (columns df)" by blast
  then show ?thesis by (simp add: test_entries_count_def)
qed

subsection \<open>The example of two storms\<close>

lemma ex_header_facts:
  "startswith (strip ex_header) ''AL''"
  "int_of_str (strip (slice 33 36 (strip ex_header))) = Some 5"
  "startswith (strip ex_header_alice) ''AL''"
  "int_of_str (strip (slice 33 36 (strip ex_header_alice))) = Some 2"
  "strip (slice 2 4 (strip ex_header_alice)) = ''16''"
  "strip (slice 18 28 (strip ex_header_alice)) = ''ALICE''"
  "startswith (strip ex_header_one) ''AL''"
  "int_of_str (strip (slice 33 36 (strip ex_header_one))) = Some 1"
  "strip (slice 2 4 (strip ex_header_one)) = ''01''"
  "strip (slice 18 28 (strip ex_header_one)) = ''UNNAMED''"
  by code_simp+

lemma ex_data_facts:
  "convertible ex_data" "data_field ex_data 0 4 = ''1851''"
  "convertible ex_data_1954" "castable ex_data_1954" "data_field ex_data_1954 0 4 = ''1954''"
  "convertible ex_data_1955" "castable ex_data_1955" "data_field ex_data_1955 0 4 = ''1955''"
  "convertible ex_data_x" "castable ex_data_x" "data_field ex_data_x 0 4 = ''1851''"
  by code_simp+

lemma ex_int_facts:
  "int_of_str ''1851'' = Some 1851" "int_of_str ''1954'' = Some 1954" "int_of_str ''1955'' = Some 1955"
  "str_int 1851 = ''1851''" "str_int 1954 = ''1954''" "str_int 1955 = ''1955''"
  by code_simp+

lemma ex_date_facts:
  "int_of_str (data_field ex_data_1954 4 6) = Some 12" "int_of_str (data_field ex_data_1954 6 8) = Some 31"
  "int_of_str (data_field ex_data_1954 10 12) = Some 18" "int_of_str (data_field ex_data_1954 12 14) = Some 0"
  "int_of_str (data_field ex_data_1955 4 6) = Some 1" "int_of_str (data_field ex_data_1955 6 8) = Some 1"
  "int_of_str (data_field ex_data_1955 10 12) = Some 0" "int_of_str (data_field ex_data_1955 12 14) = Some 0"
  "int_of_str (data_field ex_data_x 4 6) = Some 6" "int_of_str (data_field ex_data_x 6 8) = Some 25"
  "int_of_str (data_field ex_data_x 10 12) = Some 0" "int_of_str (data_field ex_data_x 12 14) = Some 30"
  by code_simp+

lemma ex_differ:
  "data_field ex_data_1954 0 4 \<noteq> data_field ex_data_x 0 4"
  "data_field ex_data_1954 4 6 \<noteq> data_field ex_data_x 4 6"
  "data_field ex_data_1954 6 8 \<noteq> data_field ex_data_x 6 8"
  "data_field ex_data_1954 10 12 \<noteq> data_field ex_data_x 10 12"
  "data_field ex_data_1954 12 14 \<noteq> data_field ex_data_x 12 14"
  "data_field ex_data_1954 16 17 \<noteq> data_field ex_data_x 16 17"
  "data_field ex_data_1954 19 21 \<noteq> data_field ex_data_x 19 21"
  "data_field ex_data_1954 35 36 \<noteq> data_field ex_data_x 35 36"
  "data_field ex_data_1954 38 41 \<noteq> data_field ex_data_x 38 41"
  "data_field ex_data_1954 43 47 \<noteq> data_field ex_data_x 43 47"
  "data_field ex_data_1954 49 53 \<noteq> data_field ex_data_x 49 53"
  "data_field ex_data_1954 55 59 \<noteq> data_field ex_data_x 55 59"
  "data_field ex_data_1954 61 65 \<noteq> data_field ex_data_x 61 65"
  "data_field ex_data_1954 67 71 \<noteq> data_field ex_data_x 67 71"
  "data_field ex_data_1954 73 77 \<noteq> data_field ex_data_x 73 77"
  "data_field ex_data_1954 79 83 \<noteq> data_field ex_data_x 79 83"
  "data_field ex_data_1954 85 89 \<noteq> data_field ex_data_x 85 89"
  "data_field ex_data_1954 91 95 \<noteq> data_field ex_data_x 91 95"
  "data_field ex_data_1954 97 101 \<noteq> data_field ex_data_x 97 101"
  "data_field ex_data_1954 103 107 \<noteq> data_field ex_data_x 103 107"
  "data_field ex_data_1954 109 113 \<noteq> data_field ex_data_x 109 113"
  "data_field ex_data_1954 115 119 \<noteq> data_field ex_data_x 115 119"
  "data_field ex_data_1954 121 125 \<noteq> data_field ex_data_x 121 125"
  by code_simp+

lemma datable_combined_row:
  assumes "int_of_str (data_field raw 0 4) = Some y" and "int_of_str (data_field raw 4 6) = Some m"
    and "int_of_str (data_field raw 6 8) = Some d" and "int_of_str (data_field raw 10 12) = Some h"
    and "int_of_str (data_field raw 12 14) = Some mi"
    and "1678 \<le> y \<and> y \<le> 2261 \<and> valid_date y m d \<and> 0 \<le> h \<and> h \<le> 23 \<and> 0 \<le> mi \<and> mi \<le> 59"
  shows "datable (combined_row header raw)"
  unfolding datable_def using assms
  by (simp add: cell_combined_row data_fields_def py_int_def)

lemma cell_data_column:
  "map_of data_fields k = Some (a, b) \<Longrightarrow> k \<noteq> ''Longitude'' \<Longrightarrow> k \<noteq> ''Latitude'' \<Longrightarrow>
   cell (combined_row header raw) k = VStr (data_field raw a b)"
  by (simp add: cell_combined_row)

lemma cell_header_column:
  "map_of data_fields k = None \<Longrightarrow> k \<noteq> ''Longitude'' \<Longrightarrow> k \<noteq> ''Latitude'' \<Longrightarrow>
   k \<noteq> ''Entries'' \<Longrightarrow> map_of header_fields k = Some (a, b) \<Longrightarrow>
   cell (combined_row (header_of h n) raw) k = VStr (strip (slice a b (strip h)))"
  by (simp add: cell_combined_row cell_header_of)

lemma ex_rows_nth:
  "ex_rows ! 0 = combined_row (header_of ex_header_alice 2) ex_data_1954"
  "ex_rows ! 2 = combined_row (header_of ex_header_one 1) ex_data_x"
  by (simp_all add: ex_rows_def)

lemma kept_two:
  assumes "cell (ex_rows ! 0) k = VStr s1" and "cell (ex_rows ! 2) k = VStr s2" and "s1 \<noteq> s2"
  shows "k \<in> kept ex_rows"
proof -
  have m: "ex_rows ! 0 \<in> set ex_rows" "ex_rows ! 2 \<in> set ex_rows" by (simp_all add: ex_rows_def)
  from nunique_two [OF m assms] have "1 < nunique ex_rows k" .
  moreover from m(1) assms(1) have "k \<in> set (columns ex_rows)" by (simp add: in_columns)
  ultimately show ?thesis by (simp add: kept_def)
qed

lemma kept_data:
  assumes "map_of data_fields k = Some (a, b)" and "k \<noteq> ''Longitude''" and "k \<noteq> ''Latitude''"
    and "data_field ex_data_1954 a b \<noteq> data_field ex_data_x a b"
  shows "k \<in> kept ex_rows"
  by (rule kept_two [OF _ _ assms(4)])
     (simp_all only: ex_rows_nth cell_data_column [OF assms(1,2,3)])

lemma kept_header:
  assumes "map_of data_fields k = None" and "k \<noteq> ''Longitude''" and "k \<noteq> ''Latitude''"
    and "k \<noteq> ''Entries''" and "map_of header_fields k = Some (a, b)"
    and "strip (slice a b (strip ex_header_alice)) \<noteq> strip (slice a b (strip ex_header_one))"
  shows "k \<in> kept ex_rows"
  by (rule kept_two [OF _ _ assms(6)])
     (simp_all only: ex_rows_nth cell_header_column [OF assms(1,2,3,4,5)])

lemma ex_rows_kept: "fst ` set cast_table \<subseteq> kept ex_rows"
proof -
  have "''CycloneID'' \<in> kept ex_rows"
    by (rule kept_header [of _ 2 4]) (simp_all add: data_fields_def header_fields_def ex_header_facts)
  moreover
  have "''Name'' \<in> kept ex_rows"
    by (rule kept_header [of _ 18 28]) (simp_all add: data_fields_def header_fields_def ex_header_facts)
  moreover
  have "''Year'' \<in> kept ex_rows"
    by (rule kept_data [of _ 0 4]) (simp_all add: data_fields_def ex_differ)
  moreover
  have "''Month'' \<in> kept ex_rows"
    by (rule kept_data [of _ 4 6]) (simp_all add: data_fields_def ex_differ)
  moreover
  have "''Day'' \<in> kept ex_rows"
    by (rule kept_data [of _ 6 8]) (simp_all add: data_fields_def ex_differ)
  moreover
  have "''Hours'' \<in> kept ex_rows"
    by (rule kept_data [of _ 10 12]) (simp_all add: data_fields_def ex_differ)
  moreover
  have "''Minutes'' \<in> kept ex_rows"
    by (rule kept_data [of _ 12 14]) (simp_all add: data_fields_def ex_differ)
  moreover
  have "''RecordID'' \<in> kept ex_rows"
    by (rule kept_data [of _ 16 17]) (simp_all add: data_fields_def ex_differ)
  moreover
  have "''Status'' \<in> kept ex_rows"
    by (rule kept_data [of _ 19 21]) (simp_all add: data_fields_def ex_differ)
  moreover
  have "''LonHemisphere'' \<in> kept ex_rows"
    by (rule kept_data [of _ 35 36]) (simp_all add: data_fields_def ex_differ)
  moreover
  have "''MaxWind'' \<in> kept ex_rows"
    by (rule kept_data [of _ 38 41]) (simp_all add: data_fields_def ex_differ)
  moreover
  have "''MinPressure'' \<in> kept ex_rows"
    by (rule kept_data [of _ 43 47]) (simp_all add: data_fields_def ex_differ)
  moreover
  have "''34NE'' \<in> kept ex_rows"
    by (rule kept_data [of _ 49 53]) (simp_all add: data_fields_def ex_differ)
  moreover
  have "''34SE'' \<in> kept ex_rows"
    by (rule kept_data [of _ 55 59]) (simp_all add: data_fields_def ex_differ)
  moreover
  have "''34SW'' \<in> kept ex_rows"
    by (rule kept_data [of _ 61 65]) (simp_all add: data_fields_def ex_differ)
  moreover
  have "''34NW'' \<in> kept ex_rows"
    by (rule kept_data [of _ 67 71]) (simp_all add: data_fields_def ex_differ)
  moreover
  have "''50NE'' \<in> kept ex_rows"
    by (rule kept_data [of _ 73 77]) (simp_all add: data_fields_def ex_differ)
  moreover
  have "''50SE'' \<in> kept ex_rows"
    by (rule kept_data [of _ 79 83]) (simp_all add: data_fields_def ex_differ)
  moreover
  have "''50SW'' \<in> kept ex_rows"
    by (rule kept_data [of _ 85 89]) (simp_all add: data_fields_def ex_differ)
  moreover
  have "''50NW'' \<in> kept ex_rows"
    by (rule kept_data [of _ 91 95]) (simp_all add: data_fields_def ex_differ)
  moreover
  have "''64NE'' \<in> kept ex_rows"
    by (rule kept_data [of _ 97 101]) (simp_all add: data_fields_def ex_differ)
  moreover
  have "''64SE'' \<in> kept ex_rows"
    by (rule kept_data [of _ 103 107]) (simp_all add: data_fields_def ex_differ)
  moreover
  have "''64SW'' \<in> kept ex_rows"
    by (rule kept_data [of _ 109 113]) (simp_all add: data_fields_def ex_differ)
  moreover
  have "''64NW'' \<in> kept ex_rows"
    by (rule kept_data [of _ 115 119]) (simp_all add: data_fields_def ex_differ)
  moreover
  have "''RadiusMaxWind'' \<in> kept ex_rows"
    by (rule kept_data [of _ 121 125]) (simp_all add: data_fields_def ex_differ)
  moreover
  note calculation
  then show ?thesis by (simp add: cast_table_def)
qed

lemma ex_rows_castable: "\<forall>r\<in>set ex_rows. castable_row r"
  by (simp add: ex_rows_def castable_combined_row ex_data_facts)

lemma ex_rows_datable: "\<forall>r\<in>set ex_rows. datable r"
proof -
  have v: "valid_date 1954 12 31" "valid_date 1955 1 1" "valid_date 1851 6 25"
    by (simp_all add: valid_date_def days_in_month_def)
  have "datable (combined_row header ex_data_1954)" for header
    by (rule datable_combined_row [of _ 1954 12 31 18 0]) (simp_all add: ex_data_facts ex_int_facts ex_date_facts v)
  moreover have "datable (combined_row header ex_data_1955)" for header
    by (rule datable_combined_row [of _ 1955 1 1 0 0]) (simp_all add: ex_data_facts ex_int_facts ex_date_facts v)
  moreover have "datable (combined_row header ex_data_x)" for header
    by (rule datable_combined_row [of _ 1851 6 25 0 30]) (simp_all add: ex_data_facts ex_int_facts ex_date_facts v)
  ultimately show ?thesis by (simp add: ex_rows_def)
qed

lemma ex_rows_normalize: "\<exists>df'. normalize ex_rows = Inr df'"
  by (rule normalize_succeeds [OF _ ex_rows_kept ex_rows_castable ex_rows_datable])
     (simp add: ex_rows_def)

lemma ex_lines_nth:
  "ex_lines ! 0 = ex_header_alice" "ex_lines ! 3 = ex_header_one" "length ex_lines = 5"
  "take 2 (drop (Suc 0) ex_lines) = [ex_data_1954, ex_data_1955]"
  "take 1 (drop (Suc 3) ex_lines) = [ex_data_x]" "drop 4 ex_lines = [ex_data_x]"
  by (simp_all add: ex_lines_def)

lemma ex_lines_parse: "parse_hurdat2 ex_lines = Inr ex_rows"
proof -
  have a: "Suc 0 + 2 = (3::nat)" "Suc 3 + 1 = (5::nat)" by simp_all
  have "parse_loop ex_lines 0 [] =
      parse_loop ex_lines (Suc 0 + 2)
        ([] @ map (combined_row (header_of (ex_lines ! 0) (int 2))) (take 2 (drop (Suc 0) ex_lines)))"
    by (rule block_step) (simp_all add: ex_lines_nth ex_header_facts ex_data_facts)
  then have 1: "parse_loop ex_lines 0 [] =
      parse_loop ex_lines 3 [combined_row (header_of ex_header_alice 2) ex_data_1954,
                             combined_row (header_of ex_header_alice 2) ex_data_1955]"
    by (simp only: a ex_lines_nth append_Nil list.map of_nat_numeral)
  have "parse_loop ex_lines 3 data =
      parse_loop ex_lines (Suc 3 + 1)
        (data @ map (combined_row (header_of (ex_lines ! 3) (int 1))) (take 1 (drop (Suc 3) ex_lines)))" for data
    by (rule block_step) (simp_all add: ex_lines_nth ex_header_facts ex_data_facts)
  then have 2: "parse_loop ex_lines 3 data =
      parse_loop ex_lines 5 (data @ [combined_row (header_of ex_header_one 1) ex_data_x])" for data
    by (simp only: a ex_lines_nth list.map of_nat_1)
  have 3: "parse_loop ex_lines 5 data = Inr data" for data
    by (rule parse_loop_end) (simp add: ex_lines_nth)
  show ?thesis by (simp add: parse_hurdat2_def 1 2 3 ex_rows_def)
qed

subsection \<open>One storm, and the key\<close>

lemma combined_row_key_cells:
  "k \<in> set (''Entries'' # group_cols) \<Longrightarrow> cell (combined_row (header_of h n) raw) k \<noteq> VFlt NaN"
  by (auto simp: group_cols_def cell_combined_row data_fields_def cell_header_of header_fields_def)

lemma one_block_run:
  assumes "startswith (strip h) ''AL''"
    and "int_of_str (strip (slice 33 36 (strip h))) = Some (int (length ds))"
    and "ds \<noteq> []" and "list_all convertible ds"
  shows "parse_hurdat2 (h # ds) = Inr (map (combined_row (header_of h (int (length ds)))) ds)"
    and "normalize (map (combined_row (header_of h (int (length ds)))) ds) = Inl KeyError"
    and "pipeline (h # ds) = Inl KeyError"
proof -
  let ?df = "map (combined_row (header_of h (int (length ds)))) ds"
  show p: "parse_hurdat2 (h # ds) = Inr ?df" by (rule single_block [OF assms(1,2,4)])
  have "\<forall>r\<in>set ?df. cell r ''CycloneID'' = VStr (strip (slice 2 4 (strip h)))"
    by (auto simp: cyclone_combined cell_header_of header_fields_def)
  then show n: "normalize ?df = Inl KeyError" by (rule normalize_KeyError)
  from assms(3) have ne: "?df \<noteq> []" by simp
  have "\<forall>r\<in>set ?df. \<forall>k\<in>set (''Entries'' # group_cols). cell r k \<noteq> VFlt NaN"
    using combined_row_key_cells by auto
  from test_entries_count_returns [OF ne this] obtain b where "test_entries_count ?df = Inr b" by blast
  with p n show "pipeline (h # ds) = Inl KeyError" by (simp add: pipeline_def)
qed

lemma one_block_validator:
  assumes "ds \<noteq> []" and "\<forall>d\<in>set ds. data_field d 0 4 = ys"
  shows "test_entries_count (map (combined_row (header_of h (int (length ds)))) ds) = Inr True"
proof -
  let ?df = "map (combined_row (header_of h (int (length ds)))) ds"
  from assms(1) have ne: "?df \<noteq> []" by simp
  let ?K = "[VStr (strip (slice 0 2 (strip h))), VStr (strip (slice 2 4 (strip h))), VStr ys,
             VStr (strip (slice 18 28 (strip h)))]"
  from assms(2) have "\<forall>r\<in>set ?df. row_key r = ?K \<and> cell r ''Entries'' = VInt (int (length ds))"
    by (auto simp: row_key_combined entries_combined)
  from test_entries_count_uniform [OF ne this] show ?thesis by (simp add: ne_count_def)
qed

lemma column_three:
  "length df = 3 \<Longrightarrow> column c df = [cell (df ! 0) c, cell (df ! 1) c, cell (df ! 2) c]"
proof -
  assume "length df = 3"
  then obtain a b d where "df = [a, b, d]"
    by (cases df; cases "tl df"; cases "tl (tl df)") auto
  then show ?thesis by (simp add: column_def)
qed

lemma ex_rows_cells:
  "cell (ex_rows ! 0) ''CycloneID'' = VStr ''16''" "cell (ex_rows ! 0) ''Year'' = VStr ''1954''"
  "cell (ex_rows ! 1) ''CycloneID'' = VStr ''16''" "cell (ex_rows ! 1) ''Year'' = VStr ''1955''"
  "cell (ex_rows ! 2) ''CycloneID'' = VStr ''01''" "cell (ex_rows ! 2) ''Year'' = VStr ''1851''"
  by (simp_all add: ex_rows_def cyclone_combined year_combined cell_header_of header_fields_def
      ex_header_facts ex_data_facts)

lemma ex_rows_keys:
  "\<exists>df'. normalize ex_rows = Inr df' \<and> pipeline ex_lines = Inr df' \<and>
         column ''UniqueID'' df' = [VStr ''195416'', VStr ''195516'', VStr ''185101'']"
proof -
  from ex_rows_normalize obtain df' where n: "normalize ex_rows = Inr df'" by blast
  have l: "length ex_rows = 3" by (simp add: ex_rows_def)
  have "\<forall>r\<in>set ex_rows. \<forall>k\<in>set (''Entries'' # group_cols). cell r k \<noteq> VFlt NaN"
    unfolding ex_rows_def using combined_row_key_cells by auto
  from test_entries_count_returns [OF _ this] obtain b where "test_entries_count ex_rows = Inr b"
    by (auto simp: ex_rows_def)
  with n have p: "pipeline ex_lines = Inr df'" by (simp add: pipeline_def ex_lines_parse)
  have "cell (df' ! 0) ''UniqueID'' = VStr ''195416''"
    using normalize_key(2) [OF n _ ex_rows_cells(1,2) ex_int_facts(2)] l by (simp add: ex_int_facts)
  moreover have "cell (df' ! 1) ''UniqueID'' = VStr ''195516''"
    using normalize_key(2) [OF n _ ex_rows_cells(3,4) ex_int_facts(3)] l by (simp add: ex_int_facts)
  moreover have "cell (df' ! 2) ''UniqueID'' = VStr ''185101''"
    using normalize_key(2) [OF n _ ex_rows_cells(5,6) ex_int_facts(1)] l by (simp add: ex_int_facts)
  moreover from normalize_key(1) [OF n] l have "length df' = 3" by simp
  ultimately have "column ''UniqueID'' df' = [VStr ''195416'', VStr ''195516'', VStr ''185101'']"
    by (simp add: column_three)
  with n p show ?thesis by blast
qed

text \<open>
  Claim C1, as the code has it. A header line that starts with \<^verbatim>\<open>AL\<close> and whose count
  reads as 5, followed by exactly five data lines of the year 1851 with float
  coordinates, gives five records, and the validator returns True. No key is assigned
  on such a file: all its rows hold the same cyclone number, the notebook removes that
  single-valued column before the casts, and the cast cell raises KeyError. On a frame
  where the run goes through, the key of a record of the year 1851 and the cyclone
  number 01 is the year followed by the cyclone number, \<^verbatim>\<open>185101\<close>, without the basin.
\<close>

theorem one_storm_five_lines:
  "(startswith (strip h) ''AL'' \<and> int_of_str (strip (slice 33 36 (strip h))) = Some 5 \<and>
    length ds = 5 \<and> (\<forall>d\<in>set ds. convertible d \<and> data_field d 0 4 = ''1851'') \<longrightarrow>
      (\<exists>df. parse_hurdat2 (h # ds) = Inr df \<and> length df = 5 \<and>
            test_entries_count df = Inr True \<and> normalize df = Inl KeyError \<and>
            pipeline (h # ds) = Inl KeyError)) \<and>
   (normalize df0 = Inr df' \<and> i < length df0 \<and> cell (df0 ! i) ''Year'' = VStr ''1851'' \<and>
    cell (df0 ! i) ''CycloneID'' = VStr ''01'' \<longrightarrow>
      length df' = length df0 \<and> cell (df' ! i) ''UniqueID'' = VStr ''185101'')"
proof (intro conjI impI)
  assume a: "startswith (strip h) ''AL'' \<and> int_of_str (strip (slice 33 36 (strip h))) = Some 5 \<and>
    length ds = 5 \<and> (\<forall>d\<in>set ds. convertible d \<and> data_field d 0 4 = ''1851'')"
  then have c: "int_of_str (strip (slice 33 36 (strip h))) = Some (int (length ds))" by simp
  from a have ne: "ds \<noteq> []" by auto
  from a have conv: "list_all convertible ds" by (simp add: list_all_iff)
  from a have al: "startswith (strip h) ''AL''" by simp
  from a have yr: "\<forall>d\<in>set ds. data_field d 0 4 = ''1851''" by simp
  note r = one_block_run [OF al c ne conv]
  from r one_block_validator [OF ne yr, of h] a
  show "\<exists>df. parse_hurdat2 (h # ds) = Inr df \<and> length df = 5 \<and>
            test_entries_count df = Inr True \<and> normalize df = Inl KeyError \<and>
            pipeline (h # ds) = Inl KeyError"
    by simp
next
  assume b: "normalize df0 = Inr df' \<and> i < length df0 \<and> cell (df0 ! i) ''Year'' = VStr ''1851'' \<and>
    cell (df0 ! i) ''CycloneID'' = VStr ''01''"
  then have n: "normalize df0 = Inr df'" by simp
  show "length df' = length df0" by (rule normalize_key(1) [OF n])
  from b normalize_key(2) [OF n, of i "''01''" "''1851''" 1851]
  show "cell (df' ! i) ''UniqueID'' = VStr ''185101''" by (simp add: ex_int_facts)
qed

text \<open>
  The claim as stated fails: on the header with five data lines the run stops with
  KeyError before any key is assigned, and in the file of two storms, where the keys
  are assigned, the record of 1851 and cyclone 01 has the key \<^verbatim>\<open>185101\<close>, not
  \<^verbatim>\<open>1851AL01\<close>.
\<close>

theorem one_storm_counterexample:
  "pipeline [ex_header, ex_data, ex_data, ex_data, ex_data, ex_data] = Inl KeyError \<and>
   map_sum id (column ''UniqueID'') (pipeline ex_lines) =
     Inr [VStr ''195416'', VStr ''195516'', VStr ''185101'']"
proof -
  have "pipeline (ex_header # [ex_data, ex_data, ex_data, ex_data, ex_data]) = Inl KeyError"
    by (rule one_block_run(3)) (simp_all add: ex_header_facts ex_data_facts)
  moreover from ex_rows_keys have "map_sum id (column ''UniqueID'') (pipeline ex_lines) =
     Inr [VStr ''195416'', VStr ''195516'', VStr ''185101'']" by auto
  ultimately show ?thesis by simp
qed

theorem one_storm_five_lines_witness:
  "(\<exists>df. parse_hurdat2 [ex_header, ex_data, ex_data, ex_data, ex_data, ex_data] = Inr df \<and>
         length df = 5 \<and> test_entries_count df = Inr True \<and> normalize df = Inl KeyError \<and>
         pipeline [ex_header, ex_data, ex_data, ex_data, ex_data, ex_data] = Inl KeyError) \<and>
   (\<exists>df'. normalize ex_rows = Inr df' \<and> cell (ex_rows ! 2) ''Year'' = VStr ''1851'' \<and>
          cell (ex_rows ! 2) ''CycloneID'' = VStr ''01'' \<and>
          cell (df' ! 2) ''UniqueID'' = VStr ''185101'')"
proof -
  from ex_rows_normalize obtain df' where n: "normalize ex_rows = Inr df'" by blast
  have l: "2 < length ex_rows" by (simp add: ex_rows_def)
  note t = one_storm_five_lines [of ex_header "[ex_data, ex_data, ex_data, ex_data, ex_data]"
      ex_rows df' 2]
  from t have "\<exists>df. parse_hurdat2 [ex_header, ex_data, ex_data, ex_data, ex_data, ex_data] = Inr df \<and>
         length df = 5 \<and> test_entries_count df = Inr True \<and> normalize df = Inl KeyError \<and>
         pipeline [ex_header, ex_data, ex_data, ex_data, ex_data, ex_data] = Inl KeyError"
    by (simp add: ex_header_facts ex_data_facts)
  moreover from t n l have "cell (df' ! 2) ''UniqueID'' = VStr ''185101''"
    by (simp add: ex_rows_cells)
  ultimately show ?thesis using n ex_rows_cells by blast
qed

lemma str_int_append_inj: "str_int a @ c = str_int b @ c \<Longrightarrow> a = b"
  by (simp add: str_int_inj)

text \<open>
  Claim C9, as the code has it. Every record that the assembler emits is the composite
  of a header and a later data line, and its year is the year field of that data line,
  whatever the header holds: the merge lets the data line's entry replace the header's.
  Two data lines of one header whose years differ give two different years, and, in
  every frame on which the later cells run through, two different keys.
\<close>

theorem year_from_data_line:
  "(parse_hurdat2 lines = Inr df \<and> r \<in> set df \<longrightarrow>
      (\<exists>h j header n. h < j \<and> j < length lines \<and>
          read_header (strip (lines ! h)) = Inr (header, n) \<and>
          r = combined_row header (lines ! j) \<and>
          cell r ''Year'' = VStr (data_field (lines ! j) 0 4))) \<and>
   cell (combined_row header raw) ''Year'' = VStr (data_field raw 0 4) \<and>
   (normalize df0 = Inr df' \<and> i < length df0 \<and> j < length df0 \<and>
    df0 ! i = combined_row header l1 \<and> df0 ! j = combined_row header l2 \<and>
    int_of_str (data_field l1 0 4) = Some y1 \<and> int_of_str (data_field l2 0 4) = Some y2 \<and>
    y1 \<noteq> y2 \<and> cell header ''CycloneID'' = VStr c \<longrightarrow>
      cell (df0 ! i) ''Year'' \<noteq> cell (df0 ! j) ''Year'' \<and>
      cell (df' ! i) ''UniqueID'' = VStr (str_int y1 @ c) \<and>
      cell (df' ! j) ''UniqueID'' = VStr (str_int y2 @ c) \<and>
      cell (df' ! i) ''UniqueID'' \<noteq> cell (df' ! j) ''UniqueID'')"
proof (intro conjI impI)
  assume "parse_hurdat2 lines = Inr df \<and> r \<in> set df"
  then have "parse_loop lines 0 [] = Inr df" and r: "r \<in> set df"
    by (simp_all add: parse_hurdat2_def)
  from parse_loop_emitted [OF this(1)] r have "emitted lines r" by simp
  then obtain h j header n where "h < j" "j < length lines"
    "read_header (strip (lines ! h)) = Inr (header, n)" "r = combined_row header (lines ! j)"
    unfolding emitted_def by blast
  moreover from this(4) have "cell r ''Year'' = VStr (data_field (lines ! j) 0 4)"
    by (simp add: year_combined)
  ultimately show "\<exists>h j header n. h < j \<and> j < length lines \<and>
          read_header (strip (lines ! h)) = Inr (header, n) \<and>
          r = combined_row header (lines ! j) \<and>
          cell r ''Year'' = VStr (data_field (lines ! j) 0 4)" by blast
next
  show "cell (combined_row header raw) ''Year'' = VStr (data_field raw 0 4)"
    by (rule year_combined)
next
  assume a: "normalize df0 = Inr df' \<and> i < length df0 \<and> j < length df0 \<and>
    df0 ! i = combined_row header l1 \<and> df0 ! j = combined_row header l2 \<and>
    int_of_str (data_field l1 0 4) = Some y1 \<and> int_of_str (data_field l2 0 4) = Some y2 \<and>
    y1 \<noteq> y2 \<and> cell header ''CycloneID'' = VStr c"
  then have n: "normalize df0 = Inr df'" and i: "i < length df0" and j: "j < length df0" by simp_all
  from a show "cell (df0 ! i) ''Year'' \<noteq> cell (df0 ! j) ''Year''"
    by (auto simp: year_combined)
  from a have ci: "cell (df0 ! i) ''CycloneID'' = VStr c" and cj: "cell (df0 ! j) ''CycloneID'' = VStr c"
    and yi: "cell (df0 ! i) ''Year'' = VStr (data_field l1 0 4)"
    and yj: "cell (df0 ! j) ''Year'' = VStr (data_field l2 0 4)"
    by (simp_all add: cyclone_combined year_combined)
  from a have y1: "int_of_str (data_field l1 0 4) = Some y1"
    and y2: "int_of_str (data_field l2 0 4) = Some y2" by simp_all
  show 1: "cell (df' ! i) ''UniqueID'' = VStr (str_int y1 @ c)"
    by (rule normalize_key(2) [OF n i ci yi y1])
  show 2: "cell (df' ! j) ''UniqueID'' = VStr (str_int y2 @ c)"
    by (rule normalize_key(2) [OF n j cj yj y2])
  from a have "str_int y1 @ c \<noteq> str_int y2 @ c" using str_int_append_inj by blast
  with 1 2 show "cell (df' ! i) ''UniqueID'' \<noteq> cell (df' ! j) ''UniqueID''" by simp
qed

text \<open>
  The claim as stated fails in its last part: a file that holds only the block across
  the turn of the year gives two records with two different years, but the run stops
  with KeyError and no key is assigned.
\<close>

theorem year_from_data_line_counterexample:
  "map_sum id (column ''Year'') (parse_hurdat2 [ex_header_alice, ex_data_1954, ex_data_1955]) =
     Inr [VStr ''1954'', VStr ''1955''] \<and>
   pipeline [ex_header_alice, ex_data_1954, ex_data_1955] = Inl KeyError"
proof -
  note r = one_block_run [of ex_header_alice "[ex_data_1954, ex_data_1955]"]
  from r(1) have "map_sum id (column ''Year'') (parse_hurdat2 [ex_header_alice, ex_data_1954, ex_data_1955]) =
     Inr [VStr ''1954'', VStr ''1955'']"
    by (simp add: ex_header_facts ex_data_facts column_def year_combined)
  moreover from r(3) have "pipeline [ex_header_alice, ex_data_1954, ex_data_1955] = Inl KeyError"
    by (simp add: ex_header_facts ex_data_facts)
  ultimately show ?thesis by simp
qed

theorem year_from_data_line_witness:
  "parse_hurdat2 ex_lines = Inr ex_rows \<and>
   cell (ex_rows ! 0) ''Year'' = VStr ''1954'' \<and> cell (ex_rows ! 1) ''Year'' = VStr ''1955'' \<and>
   (\<exists>df'. normalize ex_rows = Inr df' \<and> cell (df' ! 0) ''UniqueID'' = VStr ''195416'' \<and>
          cell (df' ! 1) ''UniqueID'' = VStr ''195516'')"
proof -
  from ex_rows_normalize obtain df' where n: "normalize ex_rows = Inr df'" by blast
  let ?hd = "header_of ex_header_alice 2"
  have c: "cell ?hd ''CycloneID'' = VStr ''16''"
    by (simp add: cell_header_of header_fields_def ex_header_facts)
  have rows: "ex_rows ! 0 = combined_row ?hd ex_data_1954" "ex_rows ! 1 = combined_row ?hd ex_data_1955"
    "0 < length ex_rows" "1 < length ex_rows"
    by (simp_all add: ex_rows_def)
  note t = year_from_data_line [of _ _ _ ?hd _ ex_rows df' 0 1 ex_data_1954 ex_data_1955 1954 1955 "''16''"]
  from t n c rows have "cell (df' ! 0) ''UniqueID'' = VStr (str_int 1954 @ ''16'')"
    and "cell (df' ! 1) ''UniqueID'' = VStr (str_int 1955 @ ''16'')"
    by (simp_all add: ex_data_facts ex_int_facts)
  moreover from t have "cell (combined_row ?hd raw) ''Year'' = VStr (data_field raw 0 4)" for raw
    by blast
  ultimately show ?thesis using n rows ex_lines_parse
    by (auto simp: ex_data_facts ex_int_facts)
qed

end
